theory Spec2Isabelle
  imports Main "HOL-Library.Word"
begin

section \<open>Values shared by the whole development\<close>

text \<open>
  Go's \<open>error\<close> values as the package builds them: \<open>errors.New\<close> and
  \<open>fmt.Errorf\<close> without a verb give a plain message, \<open>fmt.Errorf\<close> with
  \<open>%w\<close> wraps an inner error behind a prefix. Errors coming from the
  operating system, the network or a collaborator are plain messages too.
\<close>

datatype error = ErrorString string | WrapError string error

type_synonym bytes = "8 word list"

text \<open>The labkit logger, as the sequence of entries written: level and rendered message.\<close>

datatype level = Info | Warn

type_synonym log_entry = "level \<times> string"

section \<open>Configuration (internal/config)\<close>

record ServerConfig =
  Listen :: string
  ProxyProtocol :: bool
  ConcurrentSessionsLimit :: int
  ReadinessProbe :: string
  LivenessProbe :: string
  HostKeyFiles :: "string list"

record Config =
  User :: string
  Server :: ServerConfig

section \<open>The public-key callback of \<open>serverConfig\<close>\<close>

text \<open>What the callback reads from \<open>ssh.ConnMetadata\<close> and \<open>ssh.PublicKey\<close>.\<close>

record ConnMetadata =
  cm_User :: string

record PublicKey =
  pk_Type :: string
  pk_Marshal :: bytes

definition KeyAlgoDSA :: string where
  "KeyAlgoDSA = ''ssh-dss''"

text \<open>\<open>time.Duration\<close> counts nanoseconds.\<close>

definition Second :: int where
  "Second = 1000000000"

subsection \<open>\<open>base64.RawStdEncoding.EncodeToString\<close>\<close>

definition encodeStd :: string where
  "encodeStd = ''ABCDEFGHIJKLMNOPQRSTUVWXYZabcdefghijklmnopqrstuvwxyz0123456789+/''"

definition b64char :: "nat \<Rightarrow> char" where
  "b64char n = encodeStd ! (n mod 64)"

text \<open>
  Three source bytes become four characters; a remainder of one or two bytes becomes
  two or three characters, and the raw encoding adds no padding.
\<close>

fun EncodeToString :: "bytes \<Rightarrow> string" where
  "EncodeToString (a # b # c # rest) =
     (let v = unat a * 65536 + unat b * 256 + unat c
      in b64char (v div 262144) # b64char (v div 4096) # b64char (v div 64) # b64char v
         # EncodeToString rest)"
| "EncodeToString [a, b] =
     (let v = unat a * 65536 + unat b * 256
      in [b64char (v div 262144), b64char (v div 4096), b64char (v div 64)])"
| "EncodeToString [a] =
     (let v = unat a * 65536
      in [b64char (v div 262144), b64char (v div 4096)])"
| "EncodeToString [] = []"

text \<open>
  \<open>base64.RawStdEncoding.DecodeString\<close>, to say what the encoding is: every
  character stands for its position in the standard alphabet, six bits each, most
  significant first; a character outside the alphabet (the padding character
  included) is an error, and so is a remainder of one character.
\<close>

fun index_of :: "char \<Rightarrow> string \<Rightarrow> nat option" where
  "index_of c [] = None"
| "index_of c (x # xs) = (if c = x then Some 0 else map_option Suc (index_of c xs))"

definition b64value :: "char \<Rightarrow> nat option" where
  "b64value c = index_of c encodeStd"

fun DecodeString :: "string \<Rightarrow> bytes option" where
  "DecodeString (a # b # c # d # rest) =
     (case (b64value a, b64value b, b64value c, b64value d) of
        (Some p, Some q, Some r, Some s) \<Rightarrow>
          (let v = p * 262144 + q * 4096 + r * 64 + s
           in map_option (\<lambda>tl. of_nat (v div 65536) # of_nat (v div 256) # of_nat v # tl)
                (DecodeString rest))
      | _ \<Rightarrow> None)"
| "DecodeString [a, b, c] =
     (case (b64value a, b64value b, b64value c) of
        (Some p, Some q, Some r) \<Rightarrow>
          (let v = p * 262144 + q * 4096 + r * 64
           in Some [of_nat (v div 65536), of_nat (v div 256)])
      | _ \<Rightarrow> None)"
| "DecodeString [a, b] =
     (case (b64value a, b64value b) of
        (Some p, Some q) \<Rightarrow> (let v = p * 262144 + q * 4096 in Some [of_nat (v div 65536)])
      | _ \<Rightarrow> None)"
| "DecodeString [a] = None"
| "DecodeString [] = Some []"

subsection \<open>\<open>strconv.FormatInt(i, 10)\<close>\<close>

definition digit_char :: "nat \<Rightarrow> char" where
  "digit_char d = ''0123456789'' ! (d mod 10)"

fun format_nat :: "nat \<Rightarrow> string" where
  "format_nat n = (if n < 10 then [digit_char n] else format_nat (n div 10) @ [digit_char (n mod 10)])"

declare format_nat.simps [simp del]

text \<open>The \<open>Id\<close> of the gateway's response is an \<open>int64\<close>; \<open>sint\<close> reads its value.\<close>

definition FormatInt10 :: "64 word \<Rightarrow> string" where
  "FormatInt10 i = (if sint i < 0 then CHR ''-'' # format_nat (nat (- sint i)) else format_nat (nat (sint i)))"

text \<open>Reading decimal text back, to say what a decimal rendering is.\<close>

definition digit_value :: "char \<Rightarrow> nat" where
  "digit_value c = of_char c - 48"

definition parse_nat :: "string \<Rightarrow> nat" where
  "parse_nat cs = foldl (\<lambda>acc c. 10 * acc + digit_value c) 0 cs"

definition parse_int :: "string \<Rightarrow> int" where
  "parse_int cs = (case cs of [] \<Rightarrow> 0 | c # ds \<Rightarrow> if c = CHR ''-'' then - int (parse_nat ds) else int (parse_nat cs))"

subsection \<open>The authorization gateway and the callback\<close>

text \<open>
  One call of \<open>authorizedKeysClient.GetByKey\<close>: the timeout of the context it runs
  under and the key text it carries. The gateway itself is outside the package: it is a
  function from the call to the pair Go returns, the response or the error.
\<close>

record gateway_call =
  gc_timeout :: int
  gc_key :: string

record Response =
  Id :: "64 word"

type_synonym gateway = "gateway_call \<Rightarrow> error + Response"

record Permissions =
  Extensions :: "(string \<times> string) list"

text \<open>
  The result is Go's pair \<open>(*ssh.Permissions, error)\<close> with \<open>None\<close> for
  \<open>nil\<close>, together with the gateway calls the invocation made, in order.
\<close>

definition PublicKeyCallback ::
  "Config \<Rightarrow> gateway \<Rightarrow> ConnMetadata \<Rightarrow> PublicKey \<Rightarrow> (Permissions option \<times> error option) \<times> gateway_call list" where
  "PublicKeyCallback cfg getByKey conn key =
     (if cm_User conn \<noteq> User cfg then ((None, Some (ErrorString ''unknown user'')), [])
      else if pk_Type key = KeyAlgoDSA then ((None, Some (ErrorString ''DSA is prohibited'')), [])
      else
        let call = \<lparr>gc_timeout = 10 * Second, gc_key = EncodeToString (pk_Marshal key)\<rparr>
        in case getByKey call of
             Inl err \<Rightarrow> ((None, Some err), [call])
           | Inr res \<Rightarrow>
               ((Some \<lparr>Extensions = [(''key-id'', FormatInt10 (Id res))]\<rparr>, None), [call]))"

section \<open>The server (internal/sshd/sshd.go)\<close>

datatype status = StatusStarting | StatusReady | StatusOnShutdown | StatusClosed

text \<open>The values \<open>iota\<close> gives the four constants.\<close>

fun status_iota :: "status \<Rightarrow> nat" where
  "status_iota StatusStarting = 0"
| "status_iota StatusReady = 1"
| "status_iota StatusOnShutdown = 2"
| "status_iota StatusClosed = 3"

text \<open>
  The \<open>net.Listener\<close> the server holds: whether \<open>listen\<close> wrapped it in a
  \<open>proxyproto.Listener\<close>, and whether it has been closed. Closing a listener of
  package \<open>net\<close> a second time returns the error \<open>net.ErrClosed\<close>, and the
  proxy-protocol wrapper passes \<open>Close\<close> through.
\<close>

record listener =
  l_proxy :: bool
  l_closed :: bool

definition ErrClosed :: error where
  "ErrClosed = ErrorString ''use of closed network connection''"

definition listener_Close :: "listener \<Rightarrow> error option \<times> listener" where
  "listener_Close l = (if l_closed l then (Some ErrClosed, l) else (None, l\<lparr>l_closed := True\<rparr>))"

datatype Signer = Signer bytes

datatype Client = Client

text \<open>
  \<open>wg\<close> is the counter of the \<open>sync.WaitGroup\<close>; \<open>listener = None\<close> is the
  \<open>nil\<close> interface value a fresh server has.
\<close>

record Server =
  Config :: Config
  status :: status
  wg :: int
  listener :: "listener option"
  hostKeys :: "Signer list"
  authorizedKeysClient :: Client

subsection \<open>\<open>NewServer\<close>\<close>

text \<open>
  What \<open>NewServer\<close> asks of its surroundings: the constructor of the gateway client,
  the file system and the key parser.
\<close>

record host_env =
  NewClient :: "Config \<Rightarrow> error + Client"
  ReadFile :: "string \<Rightarrow> error + bytes"
  ParsePrivateKey :: "bytes \<Rightarrow> error + Signer"

text \<open>The \<open>for ... range cfg.Server.HostKeyFiles\<close> loop; both \<open>continue\<close>s log a warning.\<close>

fun loadHostKeys ::
  "host_env \<Rightarrow> string list \<Rightarrow> Signer list \<Rightarrow> log_entry list \<Rightarrow> Signer list \<times> log_entry list" where
  "loadHostKeys env [] keys lg = (keys, lg)"
| "loadHostKeys env (filename # rest) keys lg =
     (case ReadFile env filename of
        Inl err \<Rightarrow> loadHostKeys env rest keys (lg @ [(Warn, ''Failed to read host key '' @ filename)])
      | Inr keyRaw \<Rightarrow>
          (case ParsePrivateKey env keyRaw of
             Inl err \<Rightarrow> loadHostKeys env rest keys (lg @ [(Warn, ''Failed to parse host key '' @ filename)])
           | Inr key \<Rightarrow> loadHostKeys env rest (keys @ [key]) lg))"

definition NewServer :: "host_env \<Rightarrow> Config \<Rightarrow> (Server option \<times> error option) \<times> log_entry list" where
  "NewServer env cfg =
     (case NewClient env cfg of
        Inl err \<Rightarrow> ((None, Some (WrapError ''failed to initialize GitLab client: '' err)), [])
      | Inr client \<Rightarrow>
          (case loadHostKeys env (HostKeyFiles (Server cfg)) [] [] of
             (keys, lg) \<Rightarrow>
               if length keys = 0
               then ((None, Some (ErrorString ''No host keys could be loaded, aborting'')), lg)
               else ((Some \<lparr>Config = cfg, status = StatusStarting, wg = 0, listener = None,
                             hostKeys = keys, authorizedKeysClient = client\<rparr>, None), lg)))"

text \<open>Whether one configured file yields a key: it reads and what was read parses.\<close>

definition host_key_of :: "host_env \<Rightarrow> string \<Rightarrow> Signer option" where
  "host_key_of env filename =
     (case ReadFile env filename of
        Inl err \<Rightarrow> None
      | Inr keyRaw \<Rightarrow> (case ParsePrivateKey env keyRaw of Inl err \<Rightarrow> None | Inr key \<Rightarrow> Some key))"

subsection \<open>\<open>changeStatus\<close>, \<open>getStatus\<close>, \<open>listen\<close>, \<open>Shutdown\<close>, the probes\<close>

definition changeStatus :: "status \<Rightarrow> Server \<Rightarrow> Server" where
  "changeStatus st s = s\<lparr>status := st\<rparr>"

definition getStatus :: "Server \<Rightarrow> status" where
  "getStatus s = status s"

text \<open>\<open>listen\<close>, given what \<open>net.Listen\<close> answered.\<close>

definition listen :: "error option \<Rightarrow> Server \<Rightarrow> error option \<times> Server \<times> log_entry list" where
  "listen bound s =
     (case bound of
        Some err \<Rightarrow> (Some (WrapError ''failed to listen for connection: '' err), s, [])
      | None \<Rightarrow>
          (let proxy = ProxyProtocol (Server (Config s));
               sshListener = \<lparr>l_proxy = proxy, l_closed = False\<rparr>
           in (None, s\<lparr>listener := Some sshListener\<rparr>,
               (if proxy then [(Info, ''Proxy protocol is enabled'')] else [])
               @ [(Info, ''Listening for SSH connections'')])))"

text \<open>\<open>Shutdown\<close> run from its first line to its last with nothing in between.\<close>

definition Shutdown :: "Server \<Rightarrow> error option \<times> Server" where
  "Shutdown s =
     (case listener s of
        None \<Rightarrow> (None, s)
      | Some l0 \<Rightarrow>
          (let s1 = changeStatus StatusOnShutdown s
           in case listener_Close l0 of (r, l1) \<Rightarrow> (r, s1\<lparr>listener := Some l1\<rparr>)))"

text \<open>The two handlers of \<open>MonitoringServeMux\<close>, as the HTTP status code they write.\<close>

definition readiness :: "Server \<Rightarrow> nat" where
  "readiness s = (if getStatus s = StatusReady then 200 else 503)"

definition liveness :: "Server \<Rightarrow> nat" where
  "liveness s = 200"

subsection \<open>\<open>handleConn\<close>\<close>

record Conn =
  remoteAddr :: string
  conn_closed :: bool

datatype ctx_state = CtxNone | CtxLive | CtxCanceled

text \<open>
  What happens inside \<open>handleConn\<close> is decided by the connection, the peer and the
  libraries: reading the peer address panics (line 204, before anything is deferred;
  \<open>nconn.RemoteAddr().String()\<close> does so when the address is nil), or building the
  per-connection context panics (line 216, after the recover closure is deferred and
  before \<open>defer cancel()\<close>; \<open>context.WithValue\<close> does so on a nil parent), or
  \<open>ssh.NewServerConn\<close> returns an error, or something after the context exists
  panics, or \<open>conn.handle\<close> returns.
\<close>

datatype outcome =
    PanicAtRemoteAddr string
  | PanicBeforeContext string
  | HandshakeFailed error
  | PanicInBody string
  | HandleReturned

text \<open>
  The goroutine's view while it runs: the server (for \<open>s.wg\<close>), the connection, the
  context, the panic in flight and the log.
\<close>

record frame =
  fr_server :: Server
  fr_nconn :: Conn
  fr_ctx :: ctx_state
  fr_panic :: "string option"
  fr_log :: "log_entry list"

datatype deferred = Defer_wg_Done | Defer_nconn_Close | Defer_recover string | Defer_cancel

text \<open>
  \<open>wg.Done()\<close> is \<open>Add(-1)\<close>, which panics when the counter goes negative.
  The deferred closure logs only when \<open>recover()\<close> returns a value, and then the
  function returns normally.
\<close>

fun run_deferred :: "deferred \<Rightarrow> frame \<Rightarrow> frame" where
  "run_deferred Defer_wg_Done fr =
     (let s = fr_server fr; s' = s\<lparr>wg := wg s - 1\<rparr>
      in if wg s' < 0
         then fr\<lparr>fr_server := s', fr_panic := Some ''sync: negative WaitGroup counter''\<rparr>
         else fr\<lparr>fr_server := s'\<rparr>)"
| "run_deferred Defer_nconn_Close fr = fr\<lparr>fr_nconn := (fr_nconn fr)\<lparr>conn_closed := True\<rparr>\<rparr>"
| "run_deferred (Defer_recover addr) fr =
     (case fr_panic fr of
        None \<Rightarrow> fr
      | Some err \<Rightarrow>
          fr\<lparr>fr_panic := None,
             fr_log := fr_log fr @ [(Warn, ''panic handling session from '' @ addr)]\<rparr>)"
| "run_deferred Defer_cancel fr = fr\<lparr>fr_ctx := CtxCanceled\<rparr>"

text \<open>Deferred calls run last-in first-out: the head of the list was deferred last.\<close>

fun unwind :: "deferred list \<Rightarrow> frame \<Rightarrow> frame" where
  "unwind [] fr = fr"
| "unwind (d # ds) fr = unwind ds (run_deferred d fr)"

text \<open>
  A panic on line 204 finds no deferred call to run: nothing recovers it, the
  connection is not closed and \<open>wg.Done()\<close> is not called. From line 216 on the
  three deferred calls are in place, and \<open>cancel\<close> joins them on line 217.
\<close>

definition handleConn :: "outcome \<Rightarrow> frame \<Rightarrow> frame" where
  "handleConn body fr =
     (let addr = remoteAddr (fr_nconn fr);
          ds = [Defer_recover addr, Defer_nconn_Close, Defer_wg_Done]
      in case body of
           PanicAtRemoteAddr v \<Rightarrow> unwind [] (fr\<lparr>fr_panic := Some v\<rparr>)
         | PanicBeforeContext v \<Rightarrow> unwind ds (fr\<lparr>fr_panic := Some v\<rparr>)
         | HandshakeFailed err \<Rightarrow>
             unwind (Defer_cancel # ds)
               (fr\<lparr>fr_ctx := CtxLive,
                   fr_log := fr_log fr @ [(Info, ''Failed to initialize SSH connection'')]\<rparr>)
         | PanicInBody v \<Rightarrow> unwind (Defer_cancel # ds) (fr\<lparr>fr_ctx := CtxLive, fr_panic := Some v\<rparr>)
         | HandleReturned \<Rightarrow> unwind (Defer_cancel # ds) (fr\<lparr>fr_ctx := CtxLive\<rparr>))"

section \<open>The goroutines of one server, interleaved\<close>

text \<open>
  One call of \<open>ListenAndServe\<close> on the server, any number of calls of \<open>Shutdown\<close>
  and of the probes, and one goroutine per accepted connection. Every access of
  \<open>serve\<close> and of \<open>Shutdown\<close> to the shared server is a step of its own; a
  handler touches the shared server once, in \<open>wg.Done()\<close>, and is one step. The
  steps of different goroutines interleave as the scheduler decides.
\<close>

text \<open>Where the goroutine inside \<open>ListenAndServe\<close> stands.\<close>

datatype serve_pc =
    PC_NotCalled
  | PC_ListenFailed error
  | PC_SetReady
  | PC_Accept
  | PC_AcceptFailed error
  | PC_Wait
  | PC_SetClosed
  | PC_DeferredClose
  | PC_Returned

text \<open>Where one call of \<open>Shutdown\<close> stands.\<close>

datatype shutdown_pc =
    SD_Check
  | SD_ChangeStatus
  | SD_Close
  | SD_Returned "error option"

record handler =
  h_conn :: Conn
  h_ctx :: ctx_state
  h_running :: bool

record system =
  srv :: Server
  serve_at :: serve_pc
  handlers :: "handler list"
  shutdowns :: "shutdown_pc list"
  syslog :: "log_entry list"
  probes :: "nat list"
  crashed :: bool

text \<open>
  The steps. \<open>EvListen\<close> carries what \<open>net.Listen\<close> answered, \<open>EvAccept\<close> what
  \<open>Accept\<close> returned (an error, or a connection from the given peer address) and
  \<open>EvHandler\<close> what happened inside the handler of the connection with that index.
\<close>

datatype event =
    EvListen "error option"
  | EvSetReady
  | EvAccept "error + string"
  | EvAcceptCheck
  | EvWait
  | EvSetClosed
  | EvDeferredClose
  | EvShutdownCall
  | EvShutdownStep nat
  | EvHandler nat outcome
  | EvReadiness
  | EvLiveness

definition new_system :: "Server \<Rightarrow> system" where
  "new_system s =
     \<lparr>srv = s, serve_at = PC_NotCalled, handlers = [], shutdowns = [], syslog = [],
      probes = [], crashed = False\<rparr>"

text \<open>One step of a call of \<open>Shutdown\<close>: the nil check, \<open>changeStatus\<close>, \<open>Close\<close>.\<close>

definition shutdown_step :: "shutdown_pc \<Rightarrow> Server \<Rightarrow> (shutdown_pc \<times> Server) option" where
  "shutdown_step at s =
     (case at of
        SD_Check \<Rightarrow> Some (if listener s = None then SD_Returned None else SD_ChangeStatus, s)
      | SD_ChangeStatus \<Rightarrow> Some (SD_Close, changeStatus StatusOnShutdown s)
      | SD_Close \<Rightarrow>
          (case listener s of
             None \<Rightarrow> None
           | Some l0 \<Rightarrow> (case listener_Close l0 of (r, l1) \<Rightarrow> Some (SD_Returned r, s\<lparr>listener := Some l1\<rparr>)))
      | SD_Returned r \<Rightarrow> None)"

text \<open>
  The steps of \<open>ListenAndServe\<close> and \<open>serve\<close>. \<open>Accept\<close> on a closed listener
  only returns errors. \<open>wg.Wait()\<close> returns when the counter is zero and blocks
  otherwise; a blocked step is \<open>None\<close>.
\<close>

definition serve_step :: "event \<Rightarrow> system \<Rightarrow> system option" where
  "serve_step ev sys =
     (case (ev, serve_at sys) of
        (EvListen bound, PC_NotCalled) \<Rightarrow>
          (case listen bound (srv sys) of
             (Some err, s', lg) \<Rightarrow> Some (sys\<lparr>srv := s', serve_at := PC_ListenFailed err, syslog := syslog sys @ lg\<rparr>)
           | (None, s', lg) \<Rightarrow> Some (sys\<lparr>srv := s', serve_at := PC_SetReady, syslog := syslog sys @ lg\<rparr>))
      | (EvSetReady, PC_SetReady) \<Rightarrow>
          Some (sys\<lparr>srv := changeStatus StatusReady (srv sys), serve_at := PC_Accept\<rparr>)
      | (EvAccept (Inl err), PC_Accept) \<Rightarrow> Some (sys\<lparr>serve_at := PC_AcceptFailed err\<rparr>)
      | (EvAccept (Inr addr), PC_Accept) \<Rightarrow>
          (case listener (srv sys) of
             None \<Rightarrow> None
           | Some l \<Rightarrow>
               if l_closed l then None
               else Some (sys\<lparr>srv := (srv sys)\<lparr>wg := wg (srv sys) + 1\<rparr>,
                               handlers := handlers sys
                                 @ [\<lparr>h_conn = \<lparr>remoteAddr = addr, conn_closed = False\<rparr>,
                                     h_ctx = CtxNone, h_running = True\<rparr>]\<rparr>))
      | (EvAcceptCheck, PC_AcceptFailed err) \<Rightarrow>
          (if getStatus (srv sys) = StatusOnShutdown then Some (sys\<lparr>serve_at := PC_Wait\<rparr>)
           else Some (sys\<lparr>serve_at := PC_Accept,
                           syslog := syslog sys @ [(Warn, ''Failed to accept connection'')]\<rparr>))
      | (EvWait, PC_Wait) \<Rightarrow>
          (if wg (srv sys) = 0 then Some (sys\<lparr>serve_at := PC_SetClosed\<rparr>) else None)
      | (EvSetClosed, PC_SetClosed) \<Rightarrow>
          Some (sys\<lparr>srv := changeStatus StatusClosed (srv sys), serve_at := PC_DeferredClose\<rparr>)
      | (EvDeferredClose, PC_DeferredClose) \<Rightarrow>
          (case listener (srv sys) of
             None \<Rightarrow> None
           | Some l0 \<Rightarrow>
               (case listener_Close l0 of
                  (r, l1) \<Rightarrow> Some (sys\<lparr>srv := (srv sys)\<lparr>listener := Some l1\<rparr>, serve_at := PC_Returned\<rparr>)))
      | _ \<Rightarrow> None)"

text \<open>
  The handler of connection \<open>i\<close> runs \<open>handleConn\<close> to its end. A panic that is
  still in flight when the goroutine ends takes the process down, and the handler has
  not returned: \<open>h_running\<close> says that the handler has not returned.
\<close>

definition handler_step :: "nat \<Rightarrow> outcome \<Rightarrow> system \<Rightarrow> system option" where
  "handler_step i body sys =
     (if i < length (handlers sys) \<and> h_running (handlers sys ! i) then
        (let fr = handleConn body
                    \<lparr>fr_server = srv sys, fr_nconn = h_conn (handlers sys ! i), fr_ctx = CtxNone,
                     fr_panic = None, fr_log = syslog sys\<rparr>
         in Some (sys\<lparr>srv := fr_server fr,
                       handlers := (handlers sys)
                         [i := \<lparr>h_conn = fr_nconn fr, h_ctx = fr_ctx fr,
                                h_running = (fr_panic fr \<noteq> None)\<rparr>],
                       syslog := fr_log fr,
                       crashed := (fr_panic fr \<noteq> None)\<rparr>))
      else None)"

definition step :: "event \<Rightarrow> system \<Rightarrow> system option" where
  "step ev sys =
     (if crashed sys then None
      else case ev of
        EvShutdownCall \<Rightarrow> Some (sys\<lparr>shutdowns := shutdowns sys @ [SD_Check]\<rparr>)
      | EvShutdownStep k \<Rightarrow>
          (if k < length (shutdowns sys) then
             (case shutdown_step (shutdowns sys ! k) (srv sys) of
                None \<Rightarrow> None
              | Some (at, s') \<Rightarrow> Some (sys\<lparr>srv := s', shutdowns := (shutdowns sys)[k := at]\<rparr>))
           else None)
      | EvHandler i body \<Rightarrow> handler_step i body sys
      | EvReadiness \<Rightarrow> Some (sys\<lparr>probes := probes sys @ [readiness (srv sys)]\<rparr>)
      | EvLiveness \<Rightarrow> Some (sys\<lparr>probes := probes sys @ [liveness (srv sys)]\<rparr>)
      | _ \<Rightarrow> serve_step ev sys)"

text \<open>A run: the events in the order the scheduler took them.\<close>

fun run :: "event list \<Rightarrow> system \<Rightarrow> system option" where
  "run [] sys = Some sys"
| "run (ev # evs) sys = (case step ev sys of None \<Rightarrow> None | Some sys' \<Rightarrow> run evs sys')"

text \<open>The values \<open>status\<close> takes along a run, the first state included.\<close>

fun status_trace :: "event list \<Rightarrow> system \<Rightarrow> status list" where
  "status_trace [] sys = [status (srv sys)]"
| "status_trace (ev # evs) sys =
     status (srv sys) # (case step ev sys of None \<Rightarrow> [] | Some sys' \<Rightarrow> status_trace evs sys')"

fun forward :: "status list \<Rightarrow> bool" where
  "forward (a # b # rest) = (status_iota a \<le> status_iota b \<and> forward (b # rest))"
| "forward _ = True"

definition running :: "system \<Rightarrow> nat" where
  "running sys = length (filter h_running (handlers sys))"

text \<open>The accept loop has been left: \<open>serve\<close> stands at \<open>wg.Wait()\<close> or later.\<close>

fun loop_exited :: "serve_pc \<Rightarrow> bool" where
  "loop_exited PC_Wait = True"
| "loop_exited PC_SetClosed = True"
| "loop_exited PC_DeferredClose = True"
| "loop_exited PC_Returned = True"
| "loop_exited _ = False"

text \<open>\<open>wg.Wait()\<close> has returned.\<close>

fun wait_passed :: "serve_pc \<Rightarrow> bool" where
  "wait_passed PC_SetClosed = True"
| "wait_passed PC_DeferredClose = True"
| "wait_passed PC_Returned = True"
| "wait_passed _ = False"

text \<open>\<open>serve\<close> is between its write of \<open>StatusReady\<close> and its write of \<open>StatusClosed\<close>.\<close>

fun serving :: "serve_pc \<Rightarrow> bool" where
  "serving PC_Accept = True"
| "serving (PC_AcceptFailed err) = True"
| "serving PC_Wait = True"
| "serving PC_SetClosed = True"
| "serving _ = False"

text \<open>
  Every status write of a \<open>Shutdown\<close> call in the run falls while \<open>serve\<close> is
  between its two writes.
\<close>

fun shutdown_writes_while_serving :: "event list \<Rightarrow> system \<Rightarrow> bool" where
  "shutdown_writes_while_serving [] sys = True"
| "shutdown_writes_while_serving (ev # evs) sys =
     ((case ev of
         EvShutdownStep k \<Rightarrow>
           \<not> (k < length (shutdowns sys) \<and> shutdowns sys ! k = SD_ChangeStatus) \<or> serving (serve_at sys)
       | _ \<Rightarrow> True)
      \<and> (case step ev sys of None \<Rightarrow> True | Some sys' \<Rightarrow> shutdown_writes_while_serving evs sys'))"

section \<open>The connection and its session limiter\<close>

text \<open>
  Modelled from the spec: \<open>newConnection\<close> and \<open>connection.handle\<close>, which
  \<open>handleConn\<close> calls, are not among the source files. The limiter is a counting
  resource whose capacity is the configured limit; a channel-open request is admitted
  unconditionally when the limit is at most zero, otherwise it is admitted when one unit
  can be acquired without waiting and rejected at once when not; every admitted channel
  gets a handler of its own, and the unit is released when that handler returns, however
  it returns.
\<close>

datatype session_exit = SessionDone | SessionFailed error | SessionPanicRecovered string

datatype admission = Admitted | Rejected

record connection =
  c_limit :: int
  c_remoteAddr :: string
  c_acquired :: nat
  c_sessions :: "bool list"

definition newConnection :: "int \<Rightarrow> string \<Rightarrow> connection" where
  "newConnection maxSessions addr =
     \<lparr>c_limit = maxSessions, c_remoteAddr = addr, c_acquired = 0, c_sessions = []\<rparr>"

definition tryAcquire :: "connection \<Rightarrow> connection option" where
  "tryAcquire c = (if int (c_acquired c) < c_limit c then Some (c\<lparr>c_acquired := c_acquired c + 1\<rparr>) else None)"

definition release :: "connection \<Rightarrow> connection" where
  "release c = c\<lparr>c_acquired := c_acquired c - 1\<rparr>"

text \<open>One channel-open request; an admitted channel adds a running session handler.\<close>

definition channel_open :: "connection \<Rightarrow> admission \<times> connection" where
  "channel_open c =
     (if c_limit c \<le> 0 then (Admitted, c\<lparr>c_sessions := c_sessions c @ [True]\<rparr>)
      else case tryAcquire c of
             None \<Rightarrow> (Rejected, c)
           | Some c' \<Rightarrow> (Admitted, c'\<lparr>c_sessions := c_sessions c' @ [True]\<rparr>))"

text \<open>The handler of session \<open>k\<close> returns; \<open>None\<close> when no such handler is running.\<close>

definition session_return :: "nat \<Rightarrow> session_exit \<Rightarrow> connection \<Rightarrow> connection option" where
  "session_return k how c =
     (if k < length (c_sessions c) \<and> c_sessions c ! k then
        (let c' = c\<lparr>c_sessions := (c_sessions c)[k := False]\<rparr>
         in Some (if c_limit c \<le> 0 then c' else release c'))
      else None)"

datatype conn_event = ChannelOpen | SessionReturn nat session_exit

fun conn_run :: "conn_event list \<Rightarrow> connection \<Rightarrow> connection" where
  "conn_run [] c = c"
| "conn_run (ChannelOpen # evs) c = conn_run evs (snd (channel_open c))"
| "conn_run (SessionReturn k how # evs) c =
     conn_run evs (case session_return k how c of None \<Rightarrow> c | Some c' \<Rightarrow> c')"

definition admitted_now :: "connection \<Rightarrow> nat" where
  "admitted_now c = length (filter id (c_sessions c))"

section \<open>Invariants\<close>

text \<open>A server as \<open>NewServer\<close> returns it: nothing bound, nothing in flight.\<close>

definition fresh :: "Server \<Rightarrow> bool" where
  "fresh s \<longleftrightarrow> status s = StatusStarting \<and> wg s = 0 \<and> listener s = None"

text \<open>
  What every reachable state of the interleaving satisfies: the wait-group counter is
  the number of handlers that have not returned, there is none once \<open>wg.Wait()\<close> has
  returned, and \<open>StatusClosed\<close> is only seen after \<open>serve\<close> wrote it.
\<close>

definition sys_inv :: "system \<Rightarrow> bool" where
  "sys_inv sys \<longleftrightarrow>
     wg (srv sys) = int (running sys)
     \<and> (wait_passed (serve_at sys) \<longrightarrow> running sys = 0)
     \<and> (status (srv sys) = StatusClosed \<longrightarrow>
          serve_at sys = PC_DeferredClose \<or> serve_at sys = PC_Returned)"

text \<open>The limiter holds one unit per admitted session that has not returned, never more than the limit.\<close>

definition limiter_inv :: "connection \<Rightarrow> bool" where
  "limiter_inv c \<longleftrightarrow>
     (if c_limit c \<le> 0 then c_acquired c = 0
      else c_acquired c = admitted_now c \<and> int (admitted_now c) \<le> c_limit c)"

text \<open>
  The status each position of \<open>ListenAndServe\<close> goes with, as long as every
  \<open>Shutdown\<close> writes while \<open>serve\<close> is between its own two writes.
\<close>

fun status_ok :: "serve_pc \<Rightarrow> status \<Rightarrow> bool" where
  "status_ok PC_NotCalled st = (st = StatusStarting)"
| "status_ok (PC_ListenFailed err) st = (st = StatusStarting)"
| "status_ok PC_SetReady st = (st = StatusStarting)"
| "status_ok PC_DeferredClose st = (st = StatusClosed)"
| "status_ok PC_Returned st = (st = StatusClosed)"
| "status_ok _ st = (st = StatusReady \<or> st = StatusOnShutdown)"

section \<open>Concrete inputs\<close>

definition example_config :: Config where
  "example_config =
     \<lparr>User = ''git'',
      Server = \<lparr>Listen = ''[::]:22'', ProxyProtocol = False, ConcurrentSessionsLimit = 3,
                ReadinessProbe = ''/start'', LivenessProbe = ''/health'',
                HostKeyFiles = [''ssh_host_ed25519_key'', ''missing_key'']\<rparr>\<rparr>"

definition example_server :: Server where
  "example_server =
     \<lparr>Config = example_config, status = StatusStarting, wg = 0, listener = None,
      hostKeys = [Signer [1, 2, 3]], authorizedKeysClient = Client\<rparr>"

text \<open>A file system with one readable key file, a parser that accepts what it is given.\<close>

definition example_env :: host_env where
  "example_env =
     \<lparr>NewClient = (\<lambda>cfg. Inr Client),
      ReadFile = (\<lambda>filename. if filename = ''ssh_host_ed25519_key'' then Inr [1, 2, 3]
                               else Inl (ErrorString ''no such file or directory'')),
      ParsePrivateKey = (\<lambda>keyRaw. Inr (Signer keyRaw))\<rparr>"

definition dsa_key :: PublicKey where
  "dsa_key = \<lparr>pk_Type = ''ssh-dss'', pk_Marshal = [102, 111, 111]\<rparr>"

definition ed25519_key :: PublicKey where
  "ed25519_key = \<lparr>pk_Type = ''ssh-ed25519'', pk_Marshal = [102, 111, 111, 98, 97]\<rparr>"

definition git_user :: ConnMetadata where
  "git_user = \<lparr>cm_User = ''git''\<rparr>"

definition gateway_found :: gateway where
  "gateway_found call = Inr \<lparr>Id = 42\<rparr>"

definition gateway_down :: gateway where
  "gateway_down call = Inl (ErrorString ''context deadline exceeded'')"

text \<open>The server after \<open>listen\<close> bound its address.\<close>

definition listening_server :: Server where
  "listening_server = example_server\<lparr>listener := Some \<lparr>l_proxy = False, l_closed = False\<rparr>\<rparr>"

text \<open>The server inside its accept loop, nothing accepted yet.\<close>

definition accepting_system :: system where
  "accepting_system =
     \<lparr>srv = listening_server\<lparr>status := StatusReady\<rparr>, serve_at = PC_Accept, handlers = [],
      shutdowns = [], syslog = [(Info, ''Listening for SSH connections'')], probes = [],
      crashed = False\<rparr>"

text \<open>
  A run in which \<open>Shutdown\<close> is called while a connection is being handled, and a
  run in which it is called a second time after \<open>ListenAndServe\<close> has returned.
\<close>

definition shutdown_in_flight :: "event list" where
  "shutdown_in_flight =
     [EvListen None, EvSetReady, EvReadiness, EvAccept (Inr ''192.0.2.1:4022''),
      EvShutdownCall, EvShutdownStep 0, EvShutdownStep 0, EvShutdownStep 0,
      EvAccept (Inl ErrClosed), EvAcceptCheck,
      EvHandler 0 HandleReturned, EvWait, EvSetClosed, EvDeferredClose]"

definition shutdown_after_closed :: "event list" where
  "shutdown_after_closed =
     [EvListen None, EvSetReady,
      EvShutdownCall, EvShutdownStep 0, EvShutdownStep 0, EvShutdownStep 0,
      EvAccept (Inl ErrClosed), EvAcceptCheck, EvWait, EvSetClosed, EvDeferredClose,
      EvShutdownCall, EvShutdownStep 1, EvShutdownStep 1]"

text \<open>A state with two connections being handled, the accept loop waiting in \<open>Accept\<close>.\<close>

definition two_connections :: "event list" where
  "two_connections =
     [EvListen None, EvSetReady, EvAccept (Inr ''192.0.2.1:4022''), EvAccept (Inr ''192.0.2.2:4022'')]"

section \<open>Decimal text and base64\<close>

text \<open>The decimal rendering reads back as the number it renders.\<close>

lemma digit_table: "\<forall>d\<in>set [0..<10]. digit_value (digit_char d) = d \<and> digit_char d \<noteq> CHR ''-''"
  by code_simp

lemma digit_value_digit_char: "d < 10 \<Longrightarrow> digit_value (digit_char d) = d"
  using digit_table by simp

lemma parse_nat_append: "parse_nat (cs @ [c]) = 10 * parse_nat cs + digit_value c"
  by (simp add: parse_nat_def)

lemma parse_nat_format_nat: "parse_nat (format_nat n) = n"
proof (induction n rule: format_nat.induct)
  case (1 n)
  show ?case
  proof (cases "n < 10")
    case True
    then show ?thesis
      by (subst format_nat.simps) (simp add: parse_nat_def digit_value_digit_char)
  next
    case False
    with 1 have "parse_nat (format_nat (n div 10)) = n div 10" by simp
    with False show ?thesis
      by (subst format_nat.simps) (simp add: parse_nat_append digit_value_digit_char)
  qed
qed

lemma digit_char_not_minus: "digit_char d \<noteq> CHR ''-''"
proof -
  have "d mod 10 \<in> set [0..<10]" by simp
  with digit_table have "digit_char (d mod 10) \<noteq> CHR ''-''" by blast
  then show ?thesis by (simp add: digit_char_def)
qed

lemma format_nat_hd: "\<exists>d ds. format_nat n = digit_char d # ds"
proof (induction n rule: format_nat.induct)
  case (1 n)
  show ?case
  proof (cases "n < 10")
    case True
    then show ?thesis by (subst format_nat.simps) auto
  next
    case False
    with 1 obtain d ds where "format_nat (n div 10) = digit_char d # ds" by blast
    with False show ?thesis by (subst format_nat.simps) auto
  qed
qed

lemma parse_int_format_nat: "parse_int (format_nat n) = int n"
proof -
  obtain d ds where e: "format_nat n = digit_char d # ds" using format_nat_hd by blast
  have "parse_int (format_nat n) = int (parse_nat (format_nat n))"
    unfolding e by (simp add: parse_int_def digit_char_not_minus)
  then show ?thesis by (simp add: parse_nat_format_nat)
qed

lemma parse_int_FormatInt10: "parse_int (FormatInt10 i) = sint i"
proof (cases "sint i < 0")
  case True
  then show ?thesis
    by (simp add: FormatInt10_def parse_int_def parse_nat_format_nat)
next
  case False
  then show ?thesis
    by (simp add: FormatInt10_def parse_int_format_nat)
qed

text \<open>
  The raw standard encoding uses the 64 characters of the standard alphabet only, emits
  no padding, and agrees with the test vectors of RFC 4648 (padding removed).
\<close>

lemma length_encodeStd: "length encodeStd = 64"
  by (simp add: encodeStd_def)

lemma b64char_in_alphabet: "b64char n \<in> set encodeStd"
  unfolding b64char_def by (rule nth_mem) (simp add: length_encodeStd)

lemma EncodeToString_alphabet: "set (EncodeToString bs) \<subseteq> set encodeStd"
  by (induction bs rule: EncodeToString.induct) (simp_all add: Let_def b64char_in_alphabet)

lemma EncodeToString_length: "length (EncodeToString bs) = (4 * length bs + 2) div 3"
  by (induction bs rule: EncodeToString.induct) (simp_all add: Let_def)

lemma EncodeToString_rfc4648:
  "EncodeToString [102] = ''Zg''
   \<and> EncodeToString [102, 111] = ''Zm8''
   \<and> EncodeToString [102, 111, 111] = ''Zm9v''
   \<and> EncodeToString [102, 111, 111, 98] = ''Zm9vYg''
   \<and> EncodeToString [102, 111, 111, 98, 97] = ''Zm9vYmE''
   \<and> EncodeToString [102, 111, 111, 98, 97, 114] = ''Zm9vYmFy''"
  by (simp add: b64char_def encodeStd_def)


text \<open>
  Decoding gives back the bytes that were encoded, so the text is a raw standard
  base64 encoding of exactly these bytes.
\<close>

lemma b64_table: "\<forall>n\<in>set [0..<64]. b64value (b64char n) = Some n"
  by (simp add: b64value_def b64char_def encodeStd_def upt_rec [of _ "numeral _"] upt_rec [of _ "Suc _"])

lemma b64value_b64char: "b64value (b64char n) = Some (n mod 64)"
proof -
  have "n mod 64 \<in> set [0..<64]" by simp
  with b64_table have "b64value (b64char (n mod 64)) = Some (n mod 64)" by blast
  then show ?thesis by (simp add: b64char_def)
qed

lemma sextets:
  fixes v :: nat
  assumes "v < 16777216"
  shows "(v div 262144) mod 64 * 262144 + (v div 4096) mod 64 * 4096 + (v div 64) mod 64 * 64 + v mod 64 = v"
proof -
  define s3 where "s3 = v div 64"
  define s2 where "s2 = s3 div 64"
  define s1 where "s1 = s2 div 64"
  have d2: "v div 4096 = s2" by (simp add: s2_def s3_def div_mult2_eq [symmetric])
  have d1: "v div 262144 = s1" by (simp add: s1_def s2_def s3_def div_mult2_eq [symmetric])
  have "s1 < 64" using assms unfolding d1 [symmetric] by simp
  then have m1: "s1 mod 64 = s1" by simp
  have e3: "v = s3 * 64 + v mod 64" by (simp add: s3_def)
  have e2: "s3 = s2 * 64 + s3 mod 64" by (simp add: s2_def)
  have e1: "s2 = s1 * 64 + s2 mod 64" by (simp add: s1_def)
  have "s1 * 262144 + s2 mod 64 * 4096 + s3 mod 64 * 64 + v mod 64 = v"
    using e1 e2 e3 by arith
  then show ?thesis
    unfolding d1 d2 m1 s3_def [symmetric] .
qed

lemma tb1: fixes x y z :: nat assumes "x < 256" "y < 256" "z < 256"
  shows "x * 65536 + y * 256 + z < 16777216"
  using assms by linarith

lemma tb2: fixes x y z :: nat assumes "y < 256" "z < 256"
  shows "(x * 65536 + y * 256 + z) div 65536 = x"
proof -
  have "y * 256 + z < 65536" using assms by linarith
  then show ?thesis by simp
qed

lemma tb3: fixes x y z :: nat assumes "z < 256"
  shows "(x * 65536 + y * 256 + z) div 256 = x * 256 + y"
proof -
  have "x * 65536 + y * 256 + z = (x * 256 + y) * 256 + z" by simp
  with assms show ?thesis by (simp del: mult_Suc_right)
qed

lemma tb4: fixes x y :: nat
  shows "(x * 65536 + y * 256) mod 64 = 0"
proof -
  have "x * 65536 + y * 256 = 64 * (x * 1024 + y * 4)" by simp
  then show ?thesis by (simp only: mod_mult_self1_is_0)
qed

lemma tb5: fixes x :: nat
  shows "(x * 65536) div 64 mod 64 = 0"
proof -
  have "x * 65536 = (x * 16 * 64) * 64" by simp
  then have "(x * 65536) div 64 = x * 16 * 64" by simp
  then show ?thesis by simp
qed

lemma byte_of_nat: "(of_nat (x * 256 + y) :: 8 word) = of_nat y"
  unfolding word_of_nat_eq_iff take_bit_eq_mod by simp

lemma unat_byte: "unat (a :: 8 word) < 256"
  using unsigned_less [of a, where 'a = nat] by simp


lemma DecodeString_EncodeToString: "DecodeString (EncodeToString bs) = Some bs"
proof (induction bs rule: EncodeToString.induct)
  case (1 a b c rest)
  define v where "v = unat a * 65536 + unat b * 256 + unat c"
  have lt: "v < 16777216" unfolding v_def by (rule tb1) (rule unat_byte)+
  have b1: "v div 65536 = unat a" unfolding v_def by (rule tb2) (rule unat_byte)+
  have b2: "v div 256 = unat a * 256 + unat b" unfolding v_def by (rule tb3) (rule unat_byte)
  have b3: "(of_nat v :: 8 word) = c"
  proof -
    have "v = (unat a * 256 + unat b) * 256 + unat c" by (simp add: v_def)
    then show ?thesis by (simp only: byte_of_nat) simp
  qed
  have e: "EncodeToString (a # b # c # rest) =
     b64char (v div 262144) # b64char (v div 4096) # b64char (v div 64) # b64char v # EncodeToString rest"
    by (simp add: v_def Let_def)
  have w1: "(of_nat (v div 65536) :: 8 word) = a" by (simp add: b1)
  have w2: "(of_nat (v div 256) :: 8 word) = b" by (simp only: b2 byte_of_nat) simp
  show ?case
    unfolding e using 1
    by (simp add: b64value_b64char sextets [OF lt] w1 w2 b3 Let_def)
next
  case (2 a b)
  define v where "v = unat a * 65536 + unat b * 256"
  have v0: "v = unat a * 65536 + unat b * 256 + 0" by (simp add: v_def)
  have lt: "v < 16777216" unfolding v0 by (rule tb1) (simp_all add: unat_byte)
  have b1: "v div 65536 = unat a" unfolding v0 by (rule tb2) (simp_all add: unat_byte)
  have b2: "v div 256 = unat a * 256 + unat b" unfolding v0 by (rule tb3) simp
  have z: "v mod 64 = 0" unfolding v_def by (rule tb4)
  have s: "(v div 262144) mod 64 * 262144 + (v div 4096) mod 64 * 4096 + (v div 64) mod 64 * 64 = v"
    using sextets [OF lt] unfolding z add_0_right .
  have e: "EncodeToString [a, b] = [b64char (v div 262144), b64char (v div 4096), b64char (v div 64)]"
    by (simp add: v_def Let_def)
  have w1: "(of_nat (v div 65536) :: 8 word) = a" by (simp add: b1)
  have w2: "(of_nat (v div 256) :: 8 word) = b" by (simp only: b2 byte_of_nat) simp
  show ?case
    unfolding e by (simp add: b64value_b64char s w1 w2 Let_def)
next
  case (3 a)
  define v where "v = unat a * 65536"
  have v0: "v = unat a * 65536 + 0 * 256 + 0" by (simp add: v_def)
  have lt: "v < 16777216" unfolding v0 by (rule tb1) (simp_all add: unat_byte)
  have b1: "v div 65536 = unat a" by (simp add: v_def)
  have z: "v mod 64 = 0" using tb4 [of "unat a" 0] by (simp add: v_def)
  have y: "v div 64 mod 64 = 0" unfolding v_def by (rule tb5)
  have s: "(v div 262144) mod 64 * 262144 + (v div 4096) mod 64 * 4096 = v"
    using sextets [OF lt] unfolding z y mult_0 add_0_right .
  have e: "EncodeToString [a] = [b64char (v div 262144), b64char (v div 4096)]"
    by (simp add: v_def Let_def)
  have w1: "(of_nat (v div 65536) :: 8 word) = a" by (simp add: b1)
  show ?case
    unfolding e by (simp add: b64value_b64char s w1 Let_def)
next
  case 4
  show ?case by simp
qed

lemma no_padding: "CHR ''='' \<notin> set encodeStd"
  by (simp add: encodeStd_def)


section \<open>The public-key callback\<close>

text \<open>
  C5. Whenever the claimed user name differs from the configured user, or the type of
  the presented key is \<open>ssh.KeyAlgoDSA\<close>, the callback returns nil permissions
  together with an error, and it has made no call to the authorization gateway.
\<close>

theorem callback_rejects_without_gateway:
  "cm_User conn \<noteq> User cfg \<or> pk_Type key = KeyAlgoDSA \<Longrightarrow>
   snd (PublicKeyCallback cfg getByKey conn key) = []
   \<and> fst (fst (PublicKeyCallback cfg getByKey conn key)) = None
   \<and> snd (fst (PublicKeyCallback cfg getByKey conn key))
       = Some (ErrorString (if cm_User conn \<noteq> User cfg then ''unknown user'' else ''DSA is prohibited''))"
  by (auto simp: PublicKeyCallback_def)

theorem callback_rejects_without_gateway_witness:
  "pk_Type dsa_key = KeyAlgoDSA
   \<and> PublicKeyCallback example_config gateway_found git_user dsa_key
       = ((None, Some (ErrorString ''DSA is prohibited'')), [])"
  using callback_rejects_without_gateway [of git_user example_config dsa_key gateway_found]
  by (simp add: dsa_key_def KeyAlgoDSA_def git_user_def example_config_def prod_eq_iff)

text \<open>
  C6. A handshake that passes both checks makes exactly one gateway call; the call
  carries the raw standard base64 text of the marshalled key (text over the standard
  alphabet, without padding, of four characters for every three bytes rounded up, that
  decodes to the marshalled key) and runs under a timeout of ten seconds. When the gateway answers with an error the callback returns nil
  permissions and that same error; when it answers with a response the callback returns
  no error and permissions whose only extension, \<open>key-id\<close>, is the decimal text
  of the response's \<open>Id\<close>.
\<close>

theorem callback_gateway_call:
  "cm_User conn = User cfg \<Longrightarrow> pk_Type key \<noteq> KeyAlgoDSA \<Longrightarrow>
   snd (PublicKeyCallback cfg getByKey conn key)
     = [\<lparr>gc_timeout = 10 * Second, gc_key = EncodeToString (pk_Marshal key)\<rparr>]
   \<and> 10 * Second = 10000000000
   \<and> (\<forall>err. getByKey \<lparr>gc_timeout = 10 * Second, gc_key = EncodeToString (pk_Marshal key)\<rparr> = Inl err \<longrightarrow>
         fst (PublicKeyCallback cfg getByKey conn key) = (None, Some err))
   \<and> (\<forall>res. getByKey \<lparr>gc_timeout = 10 * Second, gc_key = EncodeToString (pk_Marshal key)\<rparr> = Inr res \<longrightarrow>
         fst (PublicKeyCallback cfg getByKey conn key)
           = (Some \<lparr>Extensions = [(''key-id'', FormatInt10 (Id res))]\<rparr>, None)
         \<and> parse_int (FormatInt10 (Id res)) = sint (Id res))
   \<and> (\<forall>call\<in>set (snd (PublicKeyCallback cfg getByKey conn key)).
         DecodeString (gc_key call) = Some (pk_Marshal key)
         \<and> set (gc_key call) \<subseteq> set encodeStd
         \<and> CHR ''='' \<notin> set (gc_key call)
         \<and> length (gc_key call) = (4 * length (pk_Marshal key) + 2) div 3)"
proof -
  assume u: "cm_User conn = User cfg" and k: "pk_Type key \<noteq> KeyAlgoDSA"
  let ?call = "\<lparr>gc_timeout = 10 * Second, gc_key = EncodeToString (pk_Marshal key)\<rparr>"
  have c: "snd (PublicKeyCallback cfg getByKey conn key) = [?call]"
    using u k by (cases "getByKey ?call") (simp_all add: PublicKeyCallback_def Let_def)
  have t: "10 * Second = 10000000000" by (simp add: Second_def)
  have e: "\<forall>err. getByKey ?call = Inl err \<longrightarrow>
         fst (PublicKeyCallback cfg getByKey conn key) = (None, Some err)"
    using u k by (simp add: PublicKeyCallback_def Let_def)
  have r: "\<forall>res. getByKey ?call = Inr res \<longrightarrow>
         fst (PublicKeyCallback cfg getByKey conn key)
           = (Some \<lparr>Extensions = [(''key-id'', FormatInt10 (Id res))]\<rparr>, None)
         \<and> parse_int (FormatInt10 (Id res)) = sint (Id res)"
    using u k by (simp add: PublicKeyCallback_def Let_def parse_int_FormatInt10)
  have "set (EncodeToString (pk_Marshal key)) \<subseteq> set encodeStd"
    by (rule EncodeToString_alphabet)
  with no_padding have p: "CHR ''='' \<notin> set (EncodeToString (pk_Marshal key))"
    by blast
  have d: "\<forall>call\<in>set (snd (PublicKeyCallback cfg getByKey conn key)).
         DecodeString (gc_key call) = Some (pk_Marshal key)
         \<and> set (gc_key call) \<subseteq> set encodeStd
         \<and> CHR ''='' \<notin> set (gc_key call)
         \<and> length (gc_key call) = (4 * length (pk_Marshal key) + 2) div 3"
    unfolding c
    using p by (simp add: DecodeString_EncodeToString EncodeToString_alphabet EncodeToString_length)
  from c t e r d show ?thesis by blast
qed

lemma FormatInt10_42: "FormatInt10 42 = ''42''"
  by (simp add: FormatInt10_def format_nat.simps digit_char_def)

theorem callback_gateway_call_witness:
  "cm_User git_user = User example_config \<and> pk_Type ed25519_key \<noteq> KeyAlgoDSA
   \<and> PublicKeyCallback example_config gateway_found git_user ed25519_key
       = ((Some \<lparr>Extensions = [(''key-id'', ''42'')]\<rparr>, None),
          [\<lparr>gc_timeout = 10000000000, gc_key = ''Zm9vYmE''\<rparr>])
   \<and> PublicKeyCallback example_config gateway_down git_user ed25519_key
       = ((None, Some (ErrorString ''context deadline exceeded'')),
          [\<lparr>gc_timeout = 10000000000, gc_key = ''Zm9vYmE''\<rparr>])
   \<and> DecodeString ''Zm9vYmE'' = Some (pk_Marshal ed25519_key)"
  using callback_gateway_call [of git_user example_config ed25519_key gateway_found]
        callback_gateway_call [of git_user example_config ed25519_key gateway_down]
  by (simp add: git_user_def example_config_def ed25519_key_def KeyAlgoDSA_def gateway_found_def
        gateway_down_def prod_eq_iff FormatInt10_42 b64char_def encodeStd_def Second_def b64value_def)

section \<open>\<open>NewServer\<close>\<close>

lemma loadHostKeys_keys:
  "fst (loadHostKeys env fs keys lg) = keys @ List.map_filter (host_key_of env) fs"
  by (induction fs arbitrary: keys lg)
     (auto simp: host_key_of_def split: sum.splits)

lemma loadHostKeys_log:
  "length (snd (loadHostKeys env fs keys lg)) = length lg + length (filter (\<lambda>f. host_key_of env f = None) fs)"
  by (induction fs arbitrary: keys lg)
     (auto simp: host_key_of_def split: sum.splits)

lemma loadHostKeys_warn:
  "fst ` set lg \<subseteq> {Warn} \<Longrightarrow> fst ` set (snd (loadHostKeys env fs keys lg)) \<subseteq> {Warn}"
  by (induction fs arbitrary: keys lg)
     (auto simp: host_key_of_def split: sum.splits)

lemma map_filter_Nil_iff: "List.map_filter f xs = [] \<longleftrightarrow> (\<forall>x\<in>set xs. f x = None)"
  by (induction xs) (auto simp: split: option.splits)

lemma host_key_of_example:
  "host_key_of example_env ''ssh_host_ed25519_key'' = Some (Signer [1, 2, 3])"
  "host_key_of example_env ''missing_key'' = None"
  by (simp_all add: host_key_of_def example_env_def)


text \<open>
  C7. \<open>NewServer\<close> returns an error exactly when the gateway client cannot be built
  or none of the configured host-key files both reads and parses, and it returns a
  server exactly when it returns no error. A file that fails is skipped with one
  warning and nothing else: on success the host keys are the keys of the files that
  load, in the order of the configuration, and the log holds one warning per file
  that does not.
\<close>

theorem NewServer_error_iff_no_client_or_no_key:
  "(snd (fst (NewServer env cfg)) \<noteq> None) =
     (isl (NewClient env cfg) \<or> (\<forall>f\<in>set (HostKeyFiles (Server cfg)). host_key_of env f = None))
   \<and> ((fst (fst (NewServer env cfg)) = None) = (snd (fst (NewServer env cfg)) \<noteq> None))
   \<and> (\<forall>s. fst (fst (NewServer env cfg)) = Some s \<longrightarrow>
         hostKeys s = List.map_filter (host_key_of env) (HostKeyFiles (Server cfg))
         \<and> length (snd (NewServer env cfg))
             = length (filter (\<lambda>f. host_key_of env f = None) (HostKeyFiles (Server cfg)))
         \<and> fst ` set (snd (NewServer env cfg)) \<subseteq> {Warn})"
proof -
  obtain keys lg where l: "loadHostKeys env (HostKeyFiles (Server cfg)) [] [] = (keys, lg)"
    by (cases "loadHostKeys env (HostKeyFiles (Server cfg)) [] []")
  have k: "keys = List.map_filter (host_key_of env) (HostKeyFiles (Server cfg))"
    using loadHostKeys_keys [of env "HostKeyFiles (Server cfg)" "[]" "[]"] l by simp
  have n: "length lg = length (filter (\<lambda>f. host_key_of env f = None) (HostKeyFiles (Server cfg)))"
    using loadHostKeys_log [of env "HostKeyFiles (Server cfg)" "[]" "[]"] l by simp
  have w: "fst ` set lg \<subseteq> {Warn}"
    using loadHostKeys_warn [of "[]" env "HostKeyFiles (Server cfg)" "[]"] l by simp
  have e: "(keys = []) = (\<forall>f\<in>set (HostKeyFiles (Server cfg)). host_key_of env f = None)"
    unfolding k by (rule map_filter_Nil_iff)
  show ?thesis
  proof (cases "NewClient env cfg")
    case (Inl err)
    then show ?thesis by (simp add: NewServer_def)
  next
    case (Inr client)
    then show ?thesis
      using l k n w e by (simp add: NewServer_def)
  qed
qed


theorem NewServer_error_iff_no_client_or_no_key_witness:
  "host_key_of example_env ''ssh_host_ed25519_key'' \<noteq> None
   \<and> snd (fst (NewServer example_env example_config)) = None
   \<and> (\<exists>s. fst (fst (NewServer example_env example_config)) = Some s
          \<and> hostKeys s = [Signer [1, 2, 3]])
   \<and> length (snd (NewServer example_env example_config)) = 1"
  using NewServer_error_iff_no_client_or_no_key [of example_env example_config]
  by (auto simp: host_key_of_example example_config_def)
     (simp_all add: example_env_def)

section \<open>\<open>Shutdown\<close> called twice\<close>

text \<open>
  C8, as the code has it. \<open>Shutdown\<close> changes nothing and returns nil while the
  listener is nil. With a listener, it leaves the status at \<open>StatusOnShutdown\<close>
  and the listener closed, and a second call leaves the server exactly as the first
  did; what it returns is what the listener's \<open>Close\<close> returns, which is nil for
  the call that closes an open listener and \<open>net.ErrClosed\<close> for every call after.
\<close>

theorem Shutdown_twice:
  "(listener s = None \<longrightarrow> Shutdown s = (None, s))
   \<and> snd (Shutdown (snd (Shutdown s))) = snd (Shutdown s)
   \<and> (\<forall>l. listener s = Some l \<longrightarrow>
         status (snd (Shutdown s)) = StatusOnShutdown
         \<and> listener (snd (Shutdown s)) = Some (l\<lparr>l_closed := True\<rparr>)
         \<and> fst (Shutdown s) = (if l_closed l then Some ErrClosed else None)
         \<and> fst (Shutdown (snd (Shutdown s))) = Some ErrClosed)"
  by (cases "listener s")
     (auto simp: Shutdown_def changeStatus_def listener_Close_def Let_def split: prod.splits if_splits)

text \<open>
  The second call does not return what the first returned: on a listening server the
  first \<open>Shutdown\<close> returns nil and the second returns the listener's error.
\<close>

theorem Shutdown_twice_counterexample:
  "fst (Shutdown listening_server) = None
   \<and> fst (Shutdown (snd (Shutdown listening_server))) = Some (ErrorString ''use of closed network connection'')"
  by (simp add: Shutdown_def listening_server_def changeStatus_def listener_Close_def Let_def ErrClosed_def)

theorem Shutdown_twice_witness:
  "listener listening_server = Some \<lparr>l_proxy = False, l_closed = False\<rparr>
   \<and> status (snd (Shutdown listening_server)) = StatusOnShutdown
   \<and> snd (Shutdown (snd (Shutdown listening_server))) = snd (Shutdown listening_server)
   \<and> listener example_server = None \<and> Shutdown example_server = (None, example_server)"
  using Shutdown_twice [of listening_server] Shutdown_twice [of example_server]
  by (simp add: listening_server_def example_server_def)

section \<open>The session limiter\<close>

lemma count_update:
  "k < length xs \<Longrightarrow> P (xs ! k) \<Longrightarrow> \<not> P y \<Longrightarrow>
   length (filter P (xs[k := y])) = length (filter P xs) - 1 \<and> 0 < length (filter P xs)"
proof (induction xs arbitrary: k)
  case Nil
  then show ?case by simp
next
  case (Cons x xs)
  show ?case
  proof (cases k)
    case 0
    with Cons.prems show ?thesis by simp
  next
    case (Suc j)
    with Cons.prems Cons.IH [of j] show ?thesis by auto
  qed
qed

lemma admitted_now_append [simp]: "admitted_now (c\<lparr>c_sessions := c_sessions c @ [True]\<rparr>) = Suc (admitted_now c)"
  by (simp add: admitted_now_def)

lemma limiter_inv_new: "limiter_inv (newConnection L addr)"
  by (simp add: limiter_inv_def newConnection_def admitted_now_def)

lemma limiter_inv_open: "limiter_inv c \<Longrightarrow> limiter_inv (snd (channel_open c))"
  by (auto simp: limiter_inv_def channel_open_def tryAcquire_def admitted_now_def split: if_splits)

lemma limiter_inv_return:
  "limiter_inv c \<Longrightarrow> session_return k how c = Some c' \<Longrightarrow> limiter_inv c'"
  using count_update [of k "c_sessions c" id False]
  by (auto simp: limiter_inv_def session_return_def release_def admitted_now_def Let_def split: if_splits)

lemma c_limit_open [simp]: "c_limit (snd (channel_open c)) = c_limit c"
  by (auto simp: channel_open_def tryAcquire_def split: if_splits)

lemma c_limit_return: "session_return k how c = Some c' \<Longrightarrow> c_limit c' = c_limit c"
  by (auto simp: session_return_def release_def Let_def split: if_splits)

lemma conn_run_inv: "limiter_inv c \<Longrightarrow> limiter_inv (conn_run evs c) \<and> c_limit (conn_run evs c) = c_limit c"
proof (induction evs c rule: conn_run.induct)
  case (1 c)
  then show ?case by simp
next
  case (2 evs c)
  then show ?case by (simp add: limiter_inv_open)
next
  case (3 k how evs c)
  show ?case
  proof (cases "session_return k how c")
    case None
    with 3 show ?thesis by simp
  next
    case (Some c')
    with 3 show ?thesis by (simp add: limiter_inv_return c_limit_return)
  qed
qed

text \<open>
  C1. On a connection built with limit \<open>L\<close>, after any sequence of channel-open
  requests and session returns: when \<open>L \<le> 0\<close> the next channel-open request is
  admitted; when \<open>0 < L\<close> at most \<open>L\<close> sessions are admitted at once, a request
  arriving while \<open>L\<close> are admitted is rejected and leaves the connection as it was
  (nothing is queued), and one arriving while fewer are admitted is admitted. The
  return of an admitted session's handler, whatever its exit, ends the admission and,
  under a positive limit, gives back exactly one unit.
\<close>

theorem session_limit:
  "c = conn_run evs (newConnection L addr) \<Longrightarrow>
   (L \<le> 0 \<longrightarrow> fst (channel_open c) = Admitted)
   \<and> (0 < L \<longrightarrow>
        int (admitted_now c) \<le> L
        \<and> (int (admitted_now c) = L \<longrightarrow> channel_open c = (Rejected, c))
        \<and> (int (admitted_now c) < L \<longrightarrow> fst (channel_open c) = Admitted
              \<and> admitted_now (snd (channel_open c)) = Suc (admitted_now c)))
   \<and> (\<forall>k how. k < length (c_sessions c) \<and> c_sessions c ! k \<longrightarrow>
         (\<exists>c'. session_return k how c = Some c'
            \<and> admitted_now c' = admitted_now c - 1
            \<and> 0 < admitted_now c
            \<and> (0 < L \<longrightarrow> c_acquired c' = c_acquired c - 1 \<and> c_acquired c = admitted_now c)))"
proof -
  assume c: "c = conn_run evs (newConnection L addr)"
  have i: "limiter_inv c" and l: "c_limit c = L"
    using conn_run_inv [OF limiter_inv_new, of evs L addr] c by (simp_all add: newConnection_def)
  have a: "L \<le> 0 \<longrightarrow> fst (channel_open c) = Admitted"
    using l by (simp add: channel_open_def)
  have b: "0 < L \<longrightarrow>
        int (admitted_now c) \<le> L
        \<and> (int (admitted_now c) = L \<longrightarrow> channel_open c = (Rejected, c))
        \<and> (int (admitted_now c) < L \<longrightarrow> fst (channel_open c) = Admitted
              \<and> admitted_now (snd (channel_open c)) = Suc (admitted_now c))"
    using i l by (auto simp: limiter_inv_def channel_open_def tryAcquire_def admitted_now_def)
  have d: "\<forall>k how. k < length (c_sessions c) \<and> c_sessions c ! k \<longrightarrow>
         (\<exists>c'. session_return k how c = Some c'
            \<and> admitted_now c' = admitted_now c - 1
            \<and> 0 < admitted_now c
            \<and> (0 < L \<longrightarrow> c_acquired c' = c_acquired c - 1 \<and> c_acquired c = admitted_now c))"
  proof (intro allI impI)
    fix k how
    assume k: "k < length (c_sessions c) \<and> c_sessions c ! k"
    then show "\<exists>c'. session_return k how c = Some c'
            \<and> admitted_now c' = admitted_now c - 1
            \<and> 0 < admitted_now c
            \<and> (0 < L \<longrightarrow> c_acquired c' = c_acquired c - 1 \<and> c_acquired c = admitted_now c)"
      using count_update [of k "c_sessions c" id False] i l
      by (auto simp: session_return_def release_def admitted_now_def Let_def limiter_inv_def)
  qed
  from a b d show ?thesis by blast
qed


theorem session_limit_witness:
  "admitted_now (conn_run [ChannelOpen, ChannelOpen, ChannelOpen] (newConnection 3 ''peer'')) = 3
   \<and> fst (channel_open (conn_run [ChannelOpen, ChannelOpen, ChannelOpen] (newConnection 3 ''peer''))) = Rejected
   \<and> fst (channel_open (conn_run [ChannelOpen, ChannelOpen, ChannelOpen, SessionReturn 0 (SessionPanicRecovered ''boom'')]
                            (newConnection 3 ''peer''))) = Admitted
   \<and> fst (channel_open (conn_run [ChannelOpen, ChannelOpen, ChannelOpen] (newConnection 0 ''peer''))) = Admitted"
  using session_limit [of "conn_run [ChannelOpen, ChannelOpen, ChannelOpen] (newConnection 3 ''peer'')" "[ChannelOpen, ChannelOpen, ChannelOpen]" 3 "''peer''", OF refl]
        session_limit [of "conn_run [ChannelOpen, ChannelOpen, ChannelOpen, SessionReturn 0 (SessionPanicRecovered ''boom'')] (newConnection 3 ''peer'')" "[ChannelOpen, ChannelOpen, ChannelOpen, SessionReturn 0 (SessionPanicRecovered ''boom'')]" 3 "''peer''", OF refl]
        session_limit [of "conn_run [ChannelOpen, ChannelOpen, ChannelOpen] (newConnection 0 ''peer'')" "[ChannelOpen, ChannelOpen, ChannelOpen]" 0 "''peer''", OF refl]
  by (simp add: newConnection_def channel_open_def tryAcquire_def admitted_now_def
        session_return_def release_def)

section \<open>Reachable states of the interleaving\<close>

lemma count_same:
  "k < length xs \<Longrightarrow> P (xs ! k) \<Longrightarrow> P y \<Longrightarrow> length (filter P (xs[k := y])) = length (filter P xs)"
proof (induction xs arbitrary: k)
  case Nil
  then show ?case by simp
next
  case (Cons x xs)
  show ?case
  proof (cases k)
    case 0
    with Cons.prems show ?thesis by simp
  next
    case (Suc j)
    with Cons.prems Cons.IH [of j] show ?thesis by auto
  qed
qed

lemma handleConn_result:
  assumes "fr_panic fr = None" and "0 < wg (fr_server fr)" and "\<forall>v. body \<noteq> PanicAtRemoteAddr v"
  shows "fr_server (handleConn body fr) = (fr_server fr)\<lparr>wg := wg (fr_server fr) - 1\<rparr>
    \<and> fr_panic (handleConn body fr) = None
    \<and> fr_nconn (handleConn body fr) = (fr_nconn fr)\<lparr>conn_closed := True\<rparr>
    \<and> fr_ctx (handleConn body fr) = (case body of PanicBeforeContext v \<Rightarrow> fr_ctx fr | _ \<Rightarrow> CtxCanceled)
    \<and> fr_log (handleConn body fr) = fr_log fr @
           (case body of
              PanicBeforeContext v \<Rightarrow> [(Warn, ''panic handling session from '' @ remoteAddr (fr_nconn fr))]
            | HandshakeFailed err \<Rightarrow> [(Info, ''Failed to initialize SSH connection'')]
            | PanicInBody v \<Rightarrow> [(Warn, ''panic handling session from '' @ remoteAddr (fr_nconn fr))]
            | _ \<Rightarrow> [])"
  using assms by (cases body) (simp_all add: handleConn_def Let_def)

lemma handleConn_escape:
  "handleConn (PanicAtRemoteAddr v) fr = fr\<lparr>fr_panic := Some v\<rparr>"
  by (simp add: handleConn_def)

lemma running_positive:
  assumes "i < length (handlers sys)" and "h_running (handlers sys ! i)"
  shows "0 < running sys"
  using count_update [of i "handlers sys" h_running "(handlers sys ! i)\<lparr>h_running := False\<rparr>"] assms
  by (simp add: running_def)

lemma handler_step_result:
  assumes "sys_inv sys" and "i < length (handlers sys)" and "h_running (handlers sys ! i)"
    and "\<forall>v. body \<noteq> PanicAtRemoteAddr v"
  shows "handler_step i body sys =
     Some (sys\<lparr>srv := (srv sys)\<lparr>wg := wg (srv sys) - 1\<rparr>,
               handlers := (handlers sys)
                 [i := \<lparr>h_conn = (h_conn (handlers sys ! i))\<lparr>conn_closed := True\<rparr>,
                        h_ctx = (case body of PanicBeforeContext v \<Rightarrow> CtxNone | _ \<Rightarrow> CtxCanceled),
                        h_running = False\<rparr>],
               syslog := syslog sys @
                 (case body of
                    PanicBeforeContext v \<Rightarrow> [(Warn, ''panic handling session from '' @ remoteAddr (h_conn (handlers sys ! i)))]
                  | HandshakeFailed err \<Rightarrow> [(Info, ''Failed to initialize SSH connection'')]
                  | PanicInBody v \<Rightarrow> [(Warn, ''panic handling session from '' @ remoteAddr (h_conn (handlers sys ! i)))]
                  | _ \<Rightarrow> []),
               crashed := False\<rparr>)"
proof -
  let ?fr = "\<lparr>fr_server = srv sys, fr_nconn = h_conn (handlers sys ! i), fr_ctx = CtxNone,
               fr_panic = None, fr_log = syslog sys\<rparr>"
  from running_positive [OF assms(2,3)] assms(1) have w: "0 < wg (fr_server ?fr)"
    by (simp add: sys_inv_def)
  have p: "fr_panic ?fr = None" by simp
  show ?thesis
    using assms(2,3,4)
    by (cases body) (simp_all add: handler_step_def Let_def handleConn_result [OF p w])
qed

lemma handler_step_escape:
  assumes "i < length (handlers sys)" and "h_running (handlers sys ! i)"
  shows "handler_step i (PanicAtRemoteAddr v) sys =
     Some (sys\<lparr>handlers := (handlers sys)
                 [i := \<lparr>h_conn = h_conn (handlers sys ! i), h_ctx = CtxNone, h_running = True\<rparr>],
               crashed := True\<rparr>)"
  using assms by (simp add: handler_step_def Let_def handleConn_escape)

lemma sys_inv_handler:
  assumes "sys_inv sys" and "handler_step i body sys = Some sys'"
  shows "sys_inv sys'"
proof -
  from assms(2) have i: "i < length (handlers sys)" "h_running (handlers sys ! i)"
    by (auto simp: handler_step_def split: if_splits)
  show ?thesis
  proof (cases "\<exists>v. body = PanicAtRemoteAddr v")
    case True
    then obtain v where b: "body = PanicAtRemoteAddr v" by blast
    from assms(2) handler_step_escape [OF i, of v] b
    have h: "handlers sys' = (handlers sys)
                 [i := \<lparr>h_conn = h_conn (handlers sys ! i), h_ctx = CtxNone, h_running = True\<rparr>]"
      and w: "srv sys' = srv sys" and pc: "serve_at sys' = serve_at sys"
      by auto
    have n: "running sys' = running sys"
      unfolding running_def h
      using count_same [of i "handlers sys" h_running
          "\<lparr>h_conn = h_conn (handlers sys ! i), h_ctx = CtxNone, h_running = True\<rparr>"] i
      by simp
    show ?thesis
      using assms(1) n w pc by (simp add: sys_inv_def)
  next
    case False
    then have nb: "\<forall>v. body \<noteq> PanicAtRemoteAddr v" by blast
    note r = handler_step_result [OF assms(1) i nb]
    from assms(2) r have h: "handlers sys' = (handlers sys)
                 [i := \<lparr>h_conn = (h_conn (handlers sys ! i))\<lparr>conn_closed := True\<rparr>,
                        h_ctx = (case body of PanicBeforeContext v \<Rightarrow> CtxNone | _ \<Rightarrow> CtxCanceled),
                        h_running = False\<rparr>]"
      and w: "wg (srv sys') = wg (srv sys) - 1"
      and st: "status (srv sys') = status (srv sys)" and pc: "serve_at sys' = serve_at sys"
      by auto
    have n: "running sys' = running sys - 1 \<and> 0 < running sys"
      unfolding running_def h
      using count_update [of i "handlers sys" h_running
          "\<lparr>h_conn = (h_conn (handlers sys ! i))\<lparr>conn_closed := True\<rparr>,
            h_ctx = (case body of PanicBeforeContext v \<Rightarrow> CtxNone | _ \<Rightarrow> CtxCanceled),
            h_running = False\<rparr>"] i
      by simp
    show ?thesis
      using assms(1) n w st pc by (auto simp: sys_inv_def)
  qed
qed

lemma sys_inv_serve:
  assumes "sys_inv sys" and "serve_step ev sys = Some sys'"
  shows "sys_inv sys'"
  using assms
  by (auto simp: serve_step_def sys_inv_def listen_def changeStatus_def getStatus_def running_def
        listener_Close_def Let_def
      split: event.splits serve_pc.splits option.splits sum.splits if_splits prod.splits)

lemma sys_inv_shutdown:
  assumes "sys_inv sys" and "shutdown_step at (srv sys) = Some (at', s')"
  shows "sys_inv (sys\<lparr>srv := s', shutdowns := sds\<rparr>)"
  using assms
  by (auto simp: shutdown_step_def sys_inv_def changeStatus_def running_def listener_Close_def
      split: shutdown_pc.splits option.splits if_splits prod.splits)

lemma sys_inv_step:
  assumes "sys_inv sys" and "step ev sys = Some sys'"
  shows "sys_inv sys'"
proof (cases ev)
  case (EvShutdownStep k)
  with assms show ?thesis
    by (auto simp: step_def sys_inv_shutdown split: if_splits option.splits)
next
  case (EvHandler i body)
  with assms show ?thesis
    by (auto simp: step_def sys_inv_handler split: if_splits)
next
  case EvShutdownCall
  with assms show ?thesis
    by (auto simp: step_def sys_inv_def running_def split: if_splits)
next
  case EvReadiness
  with assms show ?thesis
    by (auto simp: step_def sys_inv_def running_def split: if_splits)
next
  case EvLiveness
  with assms show ?thesis
    by (auto simp: step_def sys_inv_def running_def split: if_splits)
qed (use assms in \<open>auto simp: step_def sys_inv_serve split: if_splits\<close>)

lemma sys_inv_run:
  "sys_inv sys \<Longrightarrow> run evs sys = Some sys' \<Longrightarrow> sys_inv sys'"
  by (induction evs arbitrary: sys) (auto split: option.splits dest: sys_inv_step)

lemma sys_inv_new: "fresh s \<Longrightarrow> sys_inv (new_system s)"
  by (simp add: fresh_def sys_inv_def new_system_def running_def)


section \<open>The status along a run\<close>

lemma run_deferred_keeps:
  "status (fr_server (run_deferred d fr)) = status (fr_server fr)
   \<and> listener (fr_server (run_deferred d fr)) = listener (fr_server fr)"
  by (cases d) (simp_all add: Let_def split: option.splits)

lemma unwind_keeps:
  "status (fr_server (unwind ds fr)) = status (fr_server fr)
   \<and> listener (fr_server (unwind ds fr)) = listener (fr_server fr)"
  by (induction ds arbitrary: fr) (simp_all add: run_deferred_keeps)

lemma handleConn_keeps:
  "status (fr_server (handleConn body fr)) = status (fr_server fr)
   \<and> listener (fr_server (handleConn body fr)) = listener (fr_server fr)"
  unfolding handleConn_def Let_def by (cases body) (simp_all add: unwind_keeps del: unwind.simps)

lemma handler_step_keeps:
  assumes "handler_step i body sys = Some sys'"
  shows "status (srv sys') = status (srv sys) \<and> serve_at sys' = serve_at sys
    \<and> listener (srv sys') = listener (srv sys) \<and> shutdowns sys' = shutdowns sys"
proof -
  let ?fr = "handleConn body
                    \<lparr>fr_server = srv sys, fr_nconn = h_conn (handlers sys ! i), fr_ctx = CtxNone,
                     fr_panic = None, fr_log = syslog sys\<rparr>"
  from assms have "sys' = sys\<lparr>srv := fr_server ?fr,
                       handlers := (handlers sys)
                         [i := \<lparr>h_conn = fr_nconn ?fr, h_ctx = fr_ctx ?fr,
                                h_running = (fr_panic ?fr \<noteq> None)\<rparr>],
                       syslog := fr_log ?fr,
                       crashed := (fr_panic ?fr \<noteq> None)\<rparr>"
    by (simp add: handler_step_def Let_def split: if_splits)
  then show ?thesis
    by (simp add: handleConn_keeps)
qed

lemma status_ok_serve:
  assumes "status_ok (serve_at sys) (status (srv sys))" and "serve_step ev sys = Some sys'"
  shows "status_ok (serve_at sys') (status (srv sys'))
         \<and> status_iota (status (srv sys)) \<le> status_iota (status (srv sys'))"
  using assms
  by (auto simp: serve_step_def listen_def changeStatus_def getStatus_def listener_Close_def Let_def
      split: event.splits serve_pc.splits option.splits sum.splits if_splits prod.splits)

lemma status_ok_shutdown:
  assumes "status_ok at (status s)"
    and "sd = SD_ChangeStatus \<longrightarrow> serving at"
    and "shutdown_step sd s = Some (sd', s')"
  shows "status_ok at (status s') \<and> status_iota (status s) \<le> status_iota (status s')"
proof (cases sd)
  case SD_Check
  with assms show ?thesis by (auto simp: shutdown_step_def)
next
  case SD_ChangeStatus
  with assms show ?thesis
    by (cases at) (auto simp: shutdown_step_def changeStatus_def)
next
  case SD_Close
  with assms show ?thesis
    by (auto simp: shutdown_step_def listener_Close_def split: option.splits if_splits)
next
  case (SD_Returned r)
  with assms show ?thesis by (simp add: shutdown_step_def)
qed

lemma status_ok_step:
  assumes "status_ok (serve_at sys) (status (srv sys))"
    and "shutdown_writes_while_serving [ev] sys"
    and "step ev sys = Some sys'"
  shows "status_ok (serve_at sys') (status (srv sys'))
         \<and> status_iota (status (srv sys)) \<le> status_iota (status (srv sys'))"
proof -
  from assms(3) have nc: "\<not> crashed sys" by (auto simp: step_def split: if_splits)
  show ?thesis
  proof (cases ev)
    case (EvShutdownStep k)
    with assms(3) nc obtain sd' s' where k: "k < length (shutdowns sys)"
      and sd: "shutdown_step (shutdowns sys ! k) (srv sys) = Some (sd', s')"
      and sys': "sys' = sys\<lparr>srv := s', shutdowns := (shutdowns sys)[k := sd']\<rparr>"
      by (auto simp: step_def split: if_splits option.splits)
    from assms(2) EvShutdownStep k have w: "shutdowns sys ! k = SD_ChangeStatus \<longrightarrow> serving (serve_at sys)"
      by simp
    from status_ok_shutdown [OF assms(1) w sd] sys' show ?thesis by simp
  next
    case (EvHandler i body)
    with assms(3) nc have "handler_step i body sys = Some sys'"
      by (simp add: step_def)
    from handler_step_keeps [OF this] assms(1) show ?thesis by simp
  next
    case EvShutdownCall
    with assms(1,3) nc show ?thesis by (auto simp: step_def)
  next
    case EvReadiness
    with assms(1,3) nc show ?thesis by (auto simp: step_def)
  next
    case EvLiveness
    with assms(1,3) nc show ?thesis by (auto simp: step_def)
  next
    case (EvListen b)
    with assms(3) nc have "serve_step ev sys = Some sys'" by (simp add: step_def)
    from status_ok_serve [OF assms(1) this] show ?thesis .
  next
    case EvSetReady
    with assms(3) nc have "serve_step ev sys = Some sys'" by (simp add: step_def)
    from status_ok_serve [OF assms(1) this] show ?thesis .
  next
    case (EvAccept r)
    with assms(3) nc have "serve_step ev sys = Some sys'" by (simp add: step_def)
    from status_ok_serve [OF assms(1) this] show ?thesis .
  next
    case EvAcceptCheck
    with assms(3) nc have "serve_step ev sys = Some sys'" by (simp add: step_def)
    from status_ok_serve [OF assms(1) this] show ?thesis .
  next
    case EvWait
    with assms(3) nc have "serve_step ev sys = Some sys'" by (simp add: step_def)
    from status_ok_serve [OF assms(1) this] show ?thesis .
  next
    case EvSetClosed
    with assms(3) nc have "serve_step ev sys = Some sys'" by (simp add: step_def)
    from status_ok_serve [OF assms(1) this] show ?thesis .
  next
    case EvDeferredClose
    with assms(3) nc have "serve_step ev sys = Some sys'" by (simp add: step_def)
    from status_ok_serve [OF assms(1) this] show ?thesis .
  qed
qed

lemma status_trace_hd: "\<exists>rest. status_trace evs sys = status (srv sys) # rest"
  by (cases evs) simp_all

lemma forward_Cons:
  "forward (a # status_trace evs sys) \<longleftrightarrow>
     status_iota a \<le> status_iota (status (srv sys)) \<and> forward (status_trace evs sys)"
  using status_trace_hd [of evs sys] by auto

lemma forward_trace:
  "status_ok (serve_at sys) (status (srv sys)) \<Longrightarrow> shutdown_writes_while_serving evs sys \<Longrightarrow>
   forward (status_trace evs sys)"
proof (induction evs arbitrary: sys)
  case Nil
  then show ?case by simp
next
  case (Cons ev evs)
  show ?case
  proof (cases "step ev sys")
    case None
    then show ?thesis by simp
  next
    case (Some sys')
    from Cons.prems(2) Some have w: "shutdown_writes_while_serving [ev] sys"
      and r: "shutdown_writes_while_serving evs sys'"
      by simp_all
    from status_ok_step [OF Cons.prems(1) w Some]
    have ok: "status_ok (serve_at sys') (status (srv sys'))"
      and le: "status_iota (status (srv sys)) \<le> status_iota (status (srv sys'))"
      by simp_all
    from Cons.IH [OF ok r] le Some show ?thesis
      by (simp add: forward_Cons)
  qed
qed


lemma probe_step:
  "step EvReadiness sys = Some sys' \<or> step EvLiveness sys = Some sys' \<Longrightarrow> srv sys' = srv sys"
  by (auto simp: step_def split: if_splits)

text \<open>
  C2, as the code has it. In a run of \<open>ListenAndServe\<close>, any number of
  \<open>Shutdown\<close> calls and the probes on a fresh server, in which every \<open>Shutdown\<close>
  that writes the status does so while \<open>serve\<close> is between its write of
  \<open>StatusReady\<close> and its write of \<open>StatusClosed\<close>, the status only moves forward
  through Starting, Ready, OnShutdown, Closed; and the probes never change the server.
\<close>

theorem status_forward_while_serving:
  "fresh s0 \<Longrightarrow> shutdown_writes_while_serving evs (new_system s0) \<Longrightarrow>
   forward (status_trace evs (new_system s0))
   \<and> (\<forall>sys sys'. step EvReadiness sys = Some sys' \<or> step EvLiveness sys = Some sys' \<longrightarrow> srv sys' = srv sys)"
proof -
  assume f: "fresh s0" and w: "shutdown_writes_while_serving evs (new_system s0)"
  from f have "status_ok (serve_at (new_system s0)) (status (srv (new_system s0)))"
    by (simp add: fresh_def new_system_def)
  from forward_trace [OF this w] probe_step show ?thesis by blast
qed

lemmas run_defs = new_system_def example_server_def step_def serve_step_def
      shutdown_step_def listen_def changeStatus_def getStatus_def listener_Close_def example_config_def
      ErrClosed_def Let_def handler_step_def handleConn_def readiness_def liveness_def

theorem status_forward_while_serving_witness:
  "fresh example_server \<and> shutdown_writes_while_serving shutdown_in_flight (new_system example_server)
   \<and> status_trace shutdown_in_flight (new_system example_server)
       = [StatusStarting, StatusStarting, StatusReady, StatusReady, StatusReady, StatusReady, StatusReady,
          StatusOnShutdown, StatusOnShutdown, StatusOnShutdown, StatusOnShutdown, StatusOnShutdown,
          StatusOnShutdown, StatusClosed, StatusClosed]
   \<and> forward (status_trace shutdown_in_flight (new_system example_server))"
proof -
  have f: "fresh example_server" by (simp add: fresh_def example_server_def)
  have w: "shutdown_writes_while_serving shutdown_in_flight (new_system example_server)"
    by (simp add: shutdown_in_flight_def run_defs)
  have t: "status_trace shutdown_in_flight (new_system example_server)
       = [StatusStarting, StatusStarting, StatusReady, StatusReady, StatusReady, StatusReady, StatusReady,
          StatusOnShutdown, StatusOnShutdown, StatusOnShutdown, StatusOnShutdown, StatusOnShutdown,
          StatusOnShutdown, StatusClosed, StatusClosed]"
    by (simp add: shutdown_in_flight_def run_defs)
  from status_forward_while_serving [OF f w] f w t show ?thesis by simp
qed

text \<open>
  The status does move backward: a \<open>Shutdown\<close> called after \<open>ListenAndServe\<close> has
  returned finds the listener set and writes \<open>StatusOnShutdown\<close> over
  \<open>StatusClosed\<close>.
\<close>

theorem status_backward_counterexample:
  "status_trace shutdown_after_closed (new_system example_server)
     = [StatusStarting, StatusStarting, StatusReady, StatusReady, StatusReady,
        StatusOnShutdown, StatusOnShutdown, StatusOnShutdown, StatusOnShutdown, StatusOnShutdown,
        StatusClosed, StatusClosed, StatusClosed, StatusClosed, StatusOnShutdown]
   \<and> \<not> forward (status_trace shutdown_after_closed (new_system example_server))"
  by (simp add: shutdown_after_closed_def run_defs)


section \<open>Steps of single goroutines\<close>

lemma reachable_inv: "fresh s0 \<Longrightarrow> run evs (new_system s0) = Some sys \<Longrightarrow> sys_inv sys"
  using sys_inv_run [OF sys_inv_new] by blast

lemma running_zero: "running sys = 0 \<longleftrightarrow> (\<forall>h\<in>set (handlers sys). \<not> h_running h)"
  by (simp add: running_def filter_empty_conv)

lemma step_serve_at:
  assumes "step ev sys = Some sys'" and "serve_at sys' \<noteq> serve_at sys"
  shows "serve_step ev sys = Some sys'"
proof (cases ev)
  case (EvShutdownStep k)
  with assms show ?thesis by (auto simp: step_def split: if_splits option.splits)
next
  case (EvHandler i body)
  with assms have "handler_step i body sys = Some sys'" by (simp add: step_def split: if_splits)
  from handler_step_keeps [OF this] assms(2) show ?thesis by simp
qed (use assms in \<open>auto simp: step_def split: if_splits\<close>)

lemma serve_step_exit:
  assumes "serve_step ev sys = Some sys'" and "\<not> loop_exited (serve_at sys)" and "loop_exited (serve_at sys')"
  shows "ev = EvAcceptCheck \<and> (\<exists>err. serve_at sys = PC_AcceptFailed err)
         \<and> getStatus (srv sys) = StatusOnShutdown \<and> serve_at sys' = PC_Wait"
  using assms
  by (auto simp: serve_step_def listen_def Let_def
      split: event.splits serve_pc.splits option.splits sum.splits if_splits prod.splits)

lemma step_status_closed:
  assumes "step ev sys = Some sys'" and "status (srv sys') = StatusClosed" and "status (srv sys) \<noteq> StatusClosed"
  shows "ev = EvSetClosed \<and> serve_at sys = PC_SetClosed"
proof (cases ev)
  case (EvShutdownStep k)
  with assms show ?thesis
    by (auto simp: step_def shutdown_step_def changeStatus_def listener_Close_def
        split: if_splits option.splits shutdown_pc.splits prod.splits)
next
  case (EvHandler i body)
  with assms have "handler_step i body sys = Some sys'" by (simp add: step_def split: if_splits)
  from handler_step_keeps [OF this] assms(2,3) show ?thesis by simp
next
  case EvShutdownCall
  with assms show ?thesis by (auto simp: step_def split: if_splits)
next
  case EvReadiness
  with assms show ?thesis by (auto simp: step_def split: if_splits)
next
  case EvLiveness
  with assms show ?thesis by (auto simp: step_def split: if_splits)
qed (use assms in \<open>auto simp: step_def serve_step_def listen_def changeStatus_def listener_Close_def Let_def
      split: serve_pc.splits option.splits sum.splits if_splits prod.splits\<close>)

section \<open>The accept loop\<close>

text \<open>
  C9. An error from \<open>Accept\<close> takes \<open>serve\<close> to its status check. There the
  loop is left exactly when the status is \<open>StatusOnShutdown\<close>; with any other status
  the failure is logged as a warning and \<open>serve\<close> is back at \<open>Accept\<close>. No other
  step of any goroutine takes \<open>serve\<close> out of its loop.
\<close>

theorem accept_error_exits_only_on_shutdown:
  "(\<not> crashed sys \<and> serve_at sys = PC_Accept \<longrightarrow>
      step (EvAccept (Inl err)) sys = Some (sys\<lparr>serve_at := PC_AcceptFailed err\<rparr>))
   \<and> (\<not> crashed sys \<and> serve_at sys = PC_AcceptFailed err \<longrightarrow>
        step EvAcceptCheck sys =
          Some (if getStatus (srv sys) = StatusOnShutdown then sys\<lparr>serve_at := PC_Wait\<rparr>
                else sys\<lparr>serve_at := PC_Accept,
                         syslog := syslog sys @ [(Warn, ''Failed to accept connection'')]\<rparr>))
   \<and> (\<forall>ev sys'. step ev sys = Some sys' \<and> \<not> loop_exited (serve_at sys) \<and> loop_exited (serve_at sys') \<longrightarrow>
          ev = EvAcceptCheck \<and> (\<exists>e. serve_at sys = PC_AcceptFailed e)
          \<and> getStatus (srv sys) = StatusOnShutdown \<and> serve_at sys' = PC_Wait)"
proof -
  have a: "\<not> crashed sys \<and> serve_at sys = PC_Accept \<longrightarrow>
      step (EvAccept (Inl err)) sys = Some (sys\<lparr>serve_at := PC_AcceptFailed err\<rparr>)"
    by (simp add: step_def serve_step_def)
  have b: "\<not> crashed sys \<and> serve_at sys = PC_AcceptFailed err \<longrightarrow>
        step EvAcceptCheck sys =
          Some (if getStatus (srv sys) = StatusOnShutdown then sys\<lparr>serve_at := PC_Wait\<rparr>
                else sys\<lparr>serve_at := PC_Accept,
                         syslog := syslog sys @ [(Warn, ''Failed to accept connection'')]\<rparr>)"
    by (simp add: step_def serve_step_def)
  have c: "\<forall>ev sys'. step ev sys = Some sys' \<and> \<not> loop_exited (serve_at sys) \<and> loop_exited (serve_at sys') \<longrightarrow>
          ev = EvAcceptCheck \<and> (\<exists>e. serve_at sys = PC_AcceptFailed e)
          \<and> getStatus (srv sys) = StatusOnShutdown \<and> serve_at sys' = PC_Wait"
  proof (intro allI impI)
    fix ev sys'
    assume h: "step ev sys = Some sys' \<and> \<not> loop_exited (serve_at sys) \<and> loop_exited (serve_at sys')"
    then have "serve_at sys' \<noteq> serve_at sys" by auto
    with h have "serve_step ev sys = Some sys'" using step_serve_at [of ev sys sys'] by blast
    with h show "ev = EvAcceptCheck \<and> (\<exists>e. serve_at sys = PC_AcceptFailed e)
          \<and> getStatus (srv sys) = StatusOnShutdown \<and> serve_at sys' = PC_Wait"
      using serve_step_exit [of ev sys sys'] by blast
  qed
  from a b c show ?thesis by blast
qed

lemma run_to_accepting:
  "run [EvListen None, EvSetReady] (new_system example_server) = Some accepting_system"
  by (simp add: accepting_system_def listening_server_def run_defs)

theorem accept_error_exits_only_on_shutdown_witness:
  "\<not> crashed accepting_system \<and> serve_at accepting_system = PC_Accept
   \<and> getStatus (srv accepting_system) \<noteq> StatusOnShutdown
   \<and> run [EvAccept (Inl (ErrorString ''too many open files'')), EvAcceptCheck] accepting_system
       = Some (accepting_system\<lparr>syslog := syslog accepting_system @ [(Warn, ''Failed to accept connection'')]\<rparr>)
   \<and> run [EvShutdownCall, EvShutdownStep 0, EvShutdownStep 0, EvShutdownStep 0,
           EvAccept (Inl ErrClosed), EvAcceptCheck] accepting_system
       = Some (accepting_system
                 \<lparr>srv := (srv accepting_system)
                           \<lparr>status := StatusOnShutdown, listener := Some \<lparr>l_proxy = False, l_closed = True\<rparr>\<rparr>,
                  serve_at := PC_Wait, shutdowns := [SD_Returned None]\<rparr>)"
  using accept_error_exits_only_on_shutdown [of accepting_system "ErrorString ''too many open files''"]
        accept_error_exits_only_on_shutdown
          [of "accepting_system\<lparr>serve_at := PC_AcceptFailed (ErrorString ''too many open files'')\<rparr>"
              "ErrorString ''too many open files''"]
  by (simp add: accepting_system_def listening_server_def run_defs)

section \<open>Draining before closing\<close>

text \<open>
  C3. In every state a fresh server reaches, whatever \<open>Shutdown\<close> calls the run
  holds: once \<open>wg.Wait()\<close> has returned (so when \<open>serve\<close> and
  \<open>ListenAndServe\<close> return) every spawned handler has returned and the counter is
  zero; \<open>wg.Wait()\<close> returns only in such a state; and the status becomes
  \<open>StatusClosed\<close> only by \<open>serve\<close>'s own write after the loop and the wait, with
  no handler left running.
\<close>

theorem drain_before_close:
  "fresh s0 \<Longrightarrow> run evs (new_system s0) = Some sys \<Longrightarrow>
   (wait_passed (serve_at sys) \<longrightarrow> (\<forall>h\<in>set (handlers sys). \<not> h_running h) \<and> wg (srv sys) = 0)
   \<and> (status (srv sys) = StatusClosed \<longrightarrow>
         (serve_at sys = PC_DeferredClose \<or> serve_at sys = PC_Returned)
         \<and> (\<forall>h\<in>set (handlers sys). \<not> h_running h) \<and> wg (srv sys) = 0)
   \<and> (\<forall>sys'. step EvWait sys = Some sys' \<longrightarrow>
         serve_at sys = PC_Wait \<and> (\<forall>h\<in>set (handlers sys). \<not> h_running h) \<and> wg (srv sys) = 0)
   \<and> (\<forall>ev sys'. step ev sys = Some sys' \<and> status (srv sys') = StatusClosed \<and> status (srv sys) \<noteq> StatusClosed \<longrightarrow>
         ev = EvSetClosed \<and> serve_at sys = PC_SetClosed
         \<and> (\<forall>h\<in>set (handlers sys). \<not> h_running h) \<and> wg (srv sys) = 0)"
proof -
  assume "fresh s0" and "run evs (new_system s0) = Some sys"
  then have i: "sys_inv sys" by (rule reachable_inv)
  have a: "wait_passed (serve_at sys) \<longrightarrow> (\<forall>h\<in>set (handlers sys). \<not> h_running h) \<and> wg (srv sys) = 0"
    using i running_zero [of sys] by (auto simp: sys_inv_def)
  have b: "status (srv sys) = StatusClosed \<longrightarrow>
         (serve_at sys = PC_DeferredClose \<or> serve_at sys = PC_Returned)
         \<and> (\<forall>h\<in>set (handlers sys). \<not> h_running h) \<and> wg (srv sys) = 0"
    using i a by (auto simp: sys_inv_def)
  have c: "\<forall>sys'. step EvWait sys = Some sys' \<longrightarrow>
         serve_at sys = PC_Wait \<and> (\<forall>h\<in>set (handlers sys). \<not> h_running h) \<and> wg (srv sys) = 0"
    using i running_zero [of sys]
    by (auto simp: step_def serve_step_def sys_inv_def split: if_splits serve_pc.splits)
  have d: "\<forall>ev sys'. step ev sys = Some sys' \<and> status (srv sys') = StatusClosed \<and> status (srv sys) \<noteq> StatusClosed \<longrightarrow>
         ev = EvSetClosed \<and> serve_at sys = PC_SetClosed
         \<and> (\<forall>h\<in>set (handlers sys). \<not> h_running h) \<and> wg (srv sys) = 0"
  proof (intro allI impI)
    fix ev sys'
    assume "step ev sys = Some sys' \<and> status (srv sys') = StatusClosed \<and> status (srv sys) \<noteq> StatusClosed"
    then have "ev = EvSetClosed \<and> serve_at sys = PC_SetClosed"
      using step_status_closed [of ev sys sys'] by blast
    with a show "ev = EvSetClosed \<and> serve_at sys = PC_SetClosed
         \<and> (\<forall>h\<in>set (handlers sys). \<not> h_running h) \<and> wg (srv sys) = 0" by simp
  qed
  from a b c d show ?thesis by blast
qed

theorem drain_before_close_witness:
  "fresh example_server
   \<and> (\<exists>sys. run (take 10 shutdown_in_flight) (new_system example_server) = Some sys
          \<and> serve_at sys = PC_Wait \<and> wg (srv sys) = 1 \<and> step EvWait sys = None)
   \<and> (\<exists>sys. run shutdown_in_flight (new_system example_server) = Some sys
          \<and> serve_at sys = PC_Returned \<and> status (srv sys) = StatusClosed
          \<and> (\<forall>h\<in>set (handlers sys). \<not> h_running h) \<and> wg (srv sys) = 0)"
proof -
  have f: "fresh example_server" by (simp add: fresh_def example_server_def)
  have "map_option (\<lambda>sys. (serve_at sys, wg (srv sys), step EvWait sys))
          (run (take 10 shutdown_in_flight) (new_system example_server)) = Some (PC_Wait, 1, None)"
    by (simp add: shutdown_in_flight_def run_defs)
  then obtain mid where m: "run (take 10 shutdown_in_flight) (new_system example_server) = Some mid"
    "serve_at mid = PC_Wait" "wg (srv mid) = 1" "step EvWait mid = None"
    by auto
  have "map_option (\<lambda>sys. (serve_at sys, status (srv sys)))
          (run shutdown_in_flight (new_system example_server)) = Some (PC_Returned, StatusClosed)"
    by (simp add: shutdown_in_flight_def run_defs)
  then obtain fin where r: "run shutdown_in_flight (new_system example_server) = Some fin"
    and p: "serve_at fin = PC_Returned" "status (srv fin) = StatusClosed"
    by auto
  from drain_before_close [OF f r] p have "(\<forall>h\<in>set (handlers fin). \<not> h_running h) \<and> wg (srv fin) = 0"
    by simp
  with f m r p show ?thesis by blast
qed

section \<open>The connection handler\<close>

lemma step_handler_result:
  assumes "sys_inv sys" and "\<not> crashed sys" and "i < length (handlers sys)"
    and "h_running (handlers sys ! i)" and "\<forall>v. body \<noteq> PanicAtRemoteAddr v"
  shows "step (EvHandler i body) sys =
     Some (sys\<lparr>srv := (srv sys)\<lparr>wg := wg (srv sys) - 1\<rparr>,
               handlers := (handlers sys)
                 [i := \<lparr>h_conn = (h_conn (handlers sys ! i))\<lparr>conn_closed := True\<rparr>,
                        h_ctx = (case body of PanicBeforeContext v \<Rightarrow> CtxNone | _ \<Rightarrow> CtxCanceled),
                        h_running = False\<rparr>],
               syslog := syslog sys @
                 (case body of
                    PanicBeforeContext v \<Rightarrow> [(Warn, ''panic handling session from '' @ remoteAddr (h_conn (handlers sys ! i)))]
                  | HandshakeFailed err \<Rightarrow> [(Info, ''Failed to initialize SSH connection'')]
                  | PanicInBody v \<Rightarrow> [(Warn, ''panic handling session from '' @ remoteAddr (h_conn (handlers sys ! i)))]
                  | _ \<Rightarrow> []),
               crashed := False\<rparr>)"
  using assms(2) handler_step_result [OF assms(1,3,4,5)] by (simp add: step_def)

lemma step_accept_enabled:
  "step (EvAccept r) sys \<noteq> None \<longleftrightarrow>
     \<not> crashed sys \<and> serve_at sys = PC_Accept
     \<and> (case r of Inl err \<Rightarrow> True
         | Inr addr \<Rightarrow> (case listener (srv sys) of None \<Rightarrow> False | Some l \<Rightarrow> \<not> l_closed l))"
  by (cases r; cases "serve_at sys")
     (auto simp: step_def serve_step_def split: option.splits)

lemma step_handler_enabled:
  "step (EvHandler j b) sys \<noteq> None \<longleftrightarrow>
     \<not> crashed sys \<and> j < length (handlers sys) \<and> h_running (handlers sys ! j)"
  by (simp add: step_def handler_step_def Let_def)

text \<open>
  What the deferred recover achieves. When the handler of an accepted connection panics
  once the recover closure is deferred, before or after its context exists, the
  goroutine still ends normally: the panic is recovered and does not take the process
  down, a warning naming the peer address is logged, and the connection is closed. The
  accept loop stands where it stood, with the same status and listener, so every
  \<open>Accept\<close> that could return before can return after, and every other handler is
  untouched and can still run.
\<close>

lemma recovered_panic_is_contained:
  "fresh s0 \<Longrightarrow> run evs (new_system s0) = Some sys \<Longrightarrow> \<not> crashed sys \<Longrightarrow>
   i < length (handlers sys) \<Longrightarrow> h_running (handlers sys ! i) \<Longrightarrow>
   body = PanicBeforeContext v \<or> body = PanicInBody v \<Longrightarrow>
   (\<exists>sys'. step (EvHandler i body) sys = Some sys'
      \<and> \<not> crashed sys'
      \<and> syslog sys' = syslog sys
           @ [(Warn, ''panic handling session from '' @ remoteAddr (h_conn (handlers sys ! i)))]
      \<and> conn_closed (h_conn (handlers sys' ! i)) \<and> \<not> h_running (handlers sys' ! i)
      \<and> serve_at sys' = serve_at sys \<and> status (srv sys') = status (srv sys)
      \<and> listener (srv sys') = listener (srv sys)
      \<and> (\<forall>j. j \<noteq> i \<longrightarrow> handlers sys' ! j = handlers sys ! j)
      \<and> (\<forall>r. step (EvAccept r) sys \<noteq> None \<longrightarrow> step (EvAccept r) sys' \<noteq> None)
      \<and> (\<forall>j b. j \<noteq> i \<and> step (EvHandler j b) sys \<noteq> None \<longrightarrow> step (EvHandler j b) sys' \<noteq> None))"
proof -
  assume f: "fresh s0" and r: "run evs (new_system s0) = Some sys" and nc: "\<not> crashed sys"
    and i: "i < length (handlers sys)" "h_running (handlers sys ! i)"
    and b: "body = PanicBeforeContext v \<or> body = PanicInBody v"
  from f r have inv: "sys_inv sys" by (rule reachable_inv)
  from b have nb: "\<forall>u. body \<noteq> PanicAtRemoteAddr u" by auto
  note s = step_handler_result [OF inv nc i nb]
  from b i nc show ?thesis
    unfolding s step_accept_enabled step_handler_enabled
    by (auto simp: nth_list_update split: sum.splits option.splits)
qed

lemma two_connections_state:
  "map_option (\<lambda>sys. (map (\<lambda>h. (remoteAddr (h_conn h), conn_closed (h_conn h), h_running h)) (handlers sys),
                       wg (srv sys), crashed sys, syslog sys,
                       step (EvAccept (Inr ''192.0.2.3:4022'')) sys \<noteq> None,
                       step (EvHandler 1 HandleReturned) sys \<noteq> None))
     (run two_connections (new_system example_server))
   = Some ([(''192.0.2.1:4022'', False, True), (''192.0.2.2:4022'', False, True)], 2, False,
           [(Info, ''Listening for SSH connections'')], True, True)"
  by (simp add: two_connections_def run_defs)

lemma recovered_panic_is_contained_example:
  "fresh example_server
   \<and> (\<exists>sys sys'. run two_connections (new_system example_server) = Some sys
          \<and> \<not> crashed sys \<and> 0 < length (handlers sys) \<and> h_running (handlers sys ! 0)
          \<and> step (EvHandler 0 (PanicInBody ''nil pointer dereference'')) sys = Some sys'
          \<and> \<not> crashed sys'
          \<and> last (syslog sys') = (Warn, ''panic handling session from 192.0.2.1:4022'')
          \<and> step (EvAccept (Inr ''192.0.2.3:4022'')) sys' \<noteq> None
          \<and> step (EvHandler 1 HandleReturned) sys' \<noteq> None)"
proof -
  have f: "fresh example_server" by (simp add: fresh_def example_server_def)
  from two_connections_state
  obtain sys where r: "run two_connections (new_system example_server) = Some sys"
    and h: "map (\<lambda>h. (remoteAddr (h_conn h), conn_closed (h_conn h), h_running h)) (handlers sys)
              = [(''192.0.2.1:4022'', False, True), (''192.0.2.2:4022'', False, True)]"
    and nc: "\<not> crashed sys"
    and e: "step (EvAccept (Inr ''192.0.2.3:4022'')) sys \<noteq> None"
           "step (EvHandler 1 HandleReturned) sys \<noteq> None"
    by auto
  from h have l: "length (handlers sys) = 2"
    using length_map [of "\<lambda>h. (remoteAddr (h_conn h), conn_closed (h_conn h), h_running h)" "handlers sys"]
    by simp
  from h l have h0: "remoteAddr (h_conn (handlers sys ! 0)) = ''192.0.2.1:4022''" "h_running (handlers sys ! 0)"
    using nth_map [of 0 "handlers sys" "\<lambda>h. (remoteAddr (h_conn h), conn_closed (h_conn h), h_running h)"]
    by simp_all
  from l have i: "0 < length (handlers sys)" by simp
  from recovered_panic_is_contained [OF f r nc i h0(2), of "PanicInBody ''nil pointer dereference''" "''nil pointer dereference''"]
  obtain sys' where s: "step (EvHandler 0 (PanicInBody ''nil pointer dereference'')) sys = Some sys'"
    "\<not> crashed sys'"
    "syslog sys' = syslog sys @ [(Warn, ''panic handling session from '' @ remoteAddr (h_conn (handlers sys ! 0)))]"
    "\<forall>r. step (EvAccept r) sys \<noteq> None \<longrightarrow> step (EvAccept r) sys' \<noteq> None"
    "\<forall>j b. j \<noteq> 0 \<and> step (EvHandler j b) sys \<noteq> None \<longrightarrow> step (EvHandler j b) sys' \<noteq> None"
    by auto
  from s(3) h0(1) have "last (syslog sys') = (Warn, ''panic handling session from 192.0.2.1:4022'')"
    by simp
  moreover from s(4) e(1) have "step (EvAccept (Inr ''192.0.2.3:4022'')) sys' \<noteq> None" by blast
  moreover from s(5) e(2) have "step (EvHandler 1 HandleReturned) sys' \<noteq> None" by auto
  ultimately show ?thesis using f r nc i h0(2) s(1,2) by blast
qed


text \<open>
  C10. In every state a fresh server reaches, the counter of the wait group is the
  number of handlers spawned minus the number that have returned. On every path on
  which a running handler returns (return of \<open>conn.handle\<close>, failed handshake,
  recovered panic), its return closes the connection, lowers the counter by exactly
  one, leaves no live per-connection context (the context is canceled whenever it was
  created) and lets no panic escape; a handler that has returned takes no further
  step, so the counter is lowered once per handler.
\<close>

theorem handler_exit_paths:
  "fresh s0 \<Longrightarrow> run evs (new_system s0) = Some sys \<Longrightarrow>
   wg (srv sys) = int (length (handlers sys)) - int (length (filter (\<lambda>h. \<not> h_running h) (handlers sys)))
   \<and> (\<forall>i body. \<not> crashed sys \<and> i < length (handlers sys) \<and> h_running (handlers sys ! i)
                  \<and> (\<forall>v. body \<noteq> PanicAtRemoteAddr v) \<longrightarrow>
         (\<exists>sys'. step (EvHandler i body) sys = Some sys'
            \<and> conn_closed (h_conn (handlers sys' ! i))
            \<and> wg (srv sys') = wg (srv sys) - 1
            \<and> h_ctx (handlers sys' ! i) \<noteq> CtxLive
            \<and> ((\<forall>v. body \<noteq> PanicBeforeContext v) \<longrightarrow> h_ctx (handlers sys' ! i) = CtxCanceled)
            \<and> \<not> h_running (handlers sys' ! i)
            \<and> \<not> crashed sys'
            \<and> (\<forall>body'. step (EvHandler i body') sys' = None)))"
proof -
  assume f: "fresh s0" and r: "run evs (new_system s0) = Some sys"
  from f r have inv: "sys_inv sys" by (rule reachable_inv)
  have "length (filter h_running (handlers sys)) + length (filter (\<lambda>h. \<not> h_running h) (handlers sys))
          = length (handlers sys)"
    by (rule sum_length_filter_compl)
  with inv have a: "wg (srv sys) = int (length (handlers sys)) - int (length (filter (\<lambda>h. \<not> h_running h) (handlers sys)))"
    by (simp add: sys_inv_def running_def)
  have b: "\<forall>i body. \<not> crashed sys \<and> i < length (handlers sys) \<and> h_running (handlers sys ! i)
                  \<and> (\<forall>v. body \<noteq> PanicAtRemoteAddr v) \<longrightarrow>
         (\<exists>sys'. step (EvHandler i body) sys = Some sys'
            \<and> conn_closed (h_conn (handlers sys' ! i))
            \<and> wg (srv sys') = wg (srv sys) - 1
            \<and> h_ctx (handlers sys' ! i) \<noteq> CtxLive
            \<and> ((\<forall>v. body \<noteq> PanicBeforeContext v) \<longrightarrow> h_ctx (handlers sys' ! i) = CtxCanceled)
            \<and> \<not> h_running (handlers sys' ! i)
            \<and> \<not> crashed sys'
            \<and> (\<forall>body'. step (EvHandler i body') sys' = None))"
  proof (intro allI impI)
    fix i body
    assume i: "\<not> crashed sys \<and> i < length (handlers sys) \<and> h_running (handlers sys ! i)
                  \<and> (\<forall>v. body \<noteq> PanicAtRemoteAddr v)"
    then have nc: "\<not> crashed sys" and i1: "i < length (handlers sys)"
      and i2: "h_running (handlers sys ! i)" and nb: "\<forall>v. body \<noteq> PanicAtRemoteAddr v"
      by simp_all
    note s = step_handler_result [OF inv nc i1 i2 nb]
    show "\<exists>sys'. step (EvHandler i body) sys = Some sys'
            \<and> conn_closed (h_conn (handlers sys' ! i))
            \<and> wg (srv sys') = wg (srv sys) - 1
            \<and> h_ctx (handlers sys' ! i) \<noteq> CtxLive
            \<and> ((\<forall>v. body \<noteq> PanicBeforeContext v) \<longrightarrow> h_ctx (handlers sys' ! i) = CtxCanceled)
            \<and> \<not> h_running (handlers sys' ! i)
            \<and> \<not> crashed sys'
            \<and> (\<forall>body'. step (EvHandler i body') sys' = None)"
      unfolding s using i1 nb
      by (cases body) (simp_all add: step_def handler_step_def)
  qed
  from a b show ?thesis by blast
qed

theorem handler_exit_paths_witness:
  "fresh example_server
   \<and> (\<exists>sys sys'. run two_connections (new_system example_server) = Some sys
          \<and> \<not> crashed sys \<and> wg (srv sys) = 2 \<and> 1 < length (handlers sys) \<and> h_running (handlers sys ! 1)
          \<and> step (EvHandler 1 (HandshakeFailed (ErrorString ''ssh: no auth passed yet''))) sys = Some sys'
          \<and> conn_closed (h_conn (handlers sys' ! 1)) \<and> wg (srv sys') = 1
          \<and> h_ctx (handlers sys' ! 1) = CtxCanceled)"
proof -
  have f: "fresh example_server" by (simp add: fresh_def example_server_def)
  from two_connections_state
  obtain sys where r: "run two_connections (new_system example_server) = Some sys"
    and h: "map (\<lambda>h. (remoteAddr (h_conn h), conn_closed (h_conn h), h_running h)) (handlers sys)
              = [(''192.0.2.1:4022'', False, True), (''192.0.2.2:4022'', False, True)]"
    and w: "wg (srv sys) = 2" and nc: "\<not> crashed sys"
    by auto
  from h have l: "length (handlers sys) = 2"
    using length_map [of "\<lambda>h. (remoteAddr (h_conn h), conn_closed (h_conn h), h_running h)" "handlers sys"]
    by simp
  from h l have h1: "h_running (handlers sys ! 1)"
    using nth_map [of 1 "handlers sys" "\<lambda>h. (remoteAddr (h_conn h), conn_closed (h_conn h), h_running h)"]
    by simp
  from l have i: "1 < length (handlers sys)" by simp
  have nb: "\<forall>v. HandshakeFailed (ErrorString ''ssh: no auth passed yet'') \<noteq> PanicAtRemoteAddr v"
    by simp
  from handler_exit_paths [OF f r] nc i h1 nb
  obtain sys' where s: "step (EvHandler 1 (HandshakeFailed (ErrorString ''ssh: no auth passed yet''))) sys = Some sys'"
    "conn_closed (h_conn (handlers sys' ! 1))" "wg (srv sys') = wg (srv sys) - 1"
    "(\<forall>v. HandshakeFailed (ErrorString ''ssh: no auth passed yet'') \<noteq> PanicBeforeContext v)
       \<longrightarrow> h_ctx (handlers sys' ! 1) = CtxCanceled"
    by blast
  from s(4) have "h_ctx (handlers sys' ! 1) = CtxCanceled" by simp
  with f r w nc i h1 s(1,2,3) show ?thesis by auto
qed

end
